theory Spec2Isabelle
  imports Complex_Main "HOL-Library.Sublist"
begin

section \<open>Caller context and the entitlement evaluator\<close>

text \<open>
  The types module (\<^verbatim>\<open>types/index.ts\<close>, the second document of
  \<^verbatim>\<open>src/mcp/auth.ts\<close>) declares the caller context and two pure functions over it.
  \<^verbatim>\<open>getAuthorizedServiceFilter\<close> returns \<^verbatim>\<open>string[] | '*'\<close>; the union is the datatype
  \<open>serviceFilter\<close>.
\<close>

datatype callerKind = Token | User

record McpCallerContext =
  callerId :: string
  authorizedServices :: "string list"
  callerName :: "string option"
  callerType :: callerKind

datatype serviceFilter = AllServices | Only "string list"

definition isAuthorizedForService :: "McpCallerContext \<Rightarrow> string \<Rightarrow> bool" where
  "isAuthorizedForService context sid =
     (if ''*'' \<in> set (authorizedServices context) then True
      else sid \<in> set (authorizedServices context))"

definition getAuthorizedServiceFilter :: "McpCallerContext \<Rightarrow> serviceFilter" where
  "getAuthorizedServiceFilter context =
     (if ''*'' \<in> set (authorizedServices context) then AllServices
      else Only (authorizedServices context))"

text \<open>
  The two shapes in which the query paths consume the filter:
  \<^verbatim>\<open>authorizedFilter !== '*' && !authorizedFilter.includes(sid)\<close> (a denial test, used by
  \<^verbatim>\<open>getEventById\<close> and \<^verbatim>\<open>getServiceTimeline\<close>) and
  \<^verbatim>\<open>if (authorizedFilter !== '*') conditions.push(inArray(events.serviceId, authorizedFilter))\<close>
  (a row condition, used by both search modes). \<open>admits\<close> is the negation of the former.
\<close>

fun admits :: "serviceFilter \<Rightarrow> string \<Rightarrow> bool" where
  "admits AllServices sid = True"
| "admits (Only svcs) sid = (sid \<in> set svcs)"

section \<open>Values, storage and the world a call runs in\<close>

text \<open>
  JavaScript values that reach the core untyped (\<^verbatim>\<open>extra: unknown\<close>, the audit
  \<^verbatim>\<open>metadata: Record<string, unknown>\<close>) are \<open>json\<close> values; an object is an association
  list, read with \<open>map_of\<close>.
\<close>

datatype json =
    JUndefined
  | JNull
  | JBool bool
  | JNum int
  | JStr string
  | JArr "json list"
  | JObj "(string \<times> json) list"

text \<open>
  Every way a call can reject: the embedding collaborator throws
  (\<^verbatim>\<open>throw new Error('Failed to generate embedding')\<close>, or the remote call rejects), a read of
  storage rejects, an \<^verbatim>\<open>Invalid Date\<close> is bound as a query parameter (its
  \<^verbatim>\<open>toISOString\<close> raises a RangeError), the pattern handed to \<^verbatim>\<open>ILIKE\<close> ends in a lone
  escape character, or \<^verbatim>\<open>createHash(...).update\<close> is given something that is not a string.
\<close>

datatype error =
    EmbeddingFailed
  | StorageUnavailable
  | InvalidTimeValue
  | MalformedPattern
  | InvalidArgType

text \<open>
  Times are milliseconds since the epoch. An embedding is a vector of numbers; the doubles
  of the source are read as the rationals they denote, and the distance between two vectors
  is left to the storage collaborator (pgvector's \<^verbatim>\<open><=>\<close>).
\<close>

type_synonym vector = "rat list"

text \<open>
  A row of the \<^verbatim>\<open>events\<close> table (\<^verbatim>\<open>db/schema.ts\<close>), with the columns the query gate
  reads; \<^verbatim>\<open>metadata\<close>, the correlation columns and \<^verbatim>\<open>createdAt\<close> are never selected or
  tested by it. \<^verbatim>\<open>description\<close> and \<^verbatim>\<open>embedding\<close> are nullable.
\<close>

record event =
  row_id :: string
  row_serviceId :: string
  row_eventType :: string
  row_severity :: string
  row_title :: string
  row_description :: "string option"
  row_embedding :: "vector option"
  row_occurredAt :: int

record SearchResult =
  id' :: string
  serviceId :: string
  eventType :: string
  severity :: string
  title :: string
  description :: "string option"
  occurredAt :: int
  score :: "rat option"

record apiToken =
  tok_id :: string
  tok_tokenHash :: string
  tok_name :: string
  tok_authorizedServices :: "string list"
  tok_createdBy :: string
  tok_expiresAt :: "int option"
  tok_lastUsedAt :: "int option"
  tok_createdAt :: int

datatype logLevel = INFO | WARNING | ERROR

record AuditLogEntry =
  log_timestamp :: string
  log_level :: logLevel
  log_action :: string
  log_callerId :: string
  log_callerName :: "string option"
  log_success :: bool
  log_resourceType :: "string option"
  log_resourceId :: "string option"
  log_serviceId :: "string option"
  log_message :: "string option"
  log_metadata :: "(string \<times> json) list option"

text \<open>
  Storage holds the two tables in their physical order. \<open>reachable\<close> says whether a read is
  answered; when it is not (the engine is down, or it refuses a value handed to it, such as
  a text that holds a NUL character), the awaited query rejects.
\<close>

record storage =
  events :: "event list"
  apiTokens :: "apiToken list"
  reachable :: bool

text \<open>
  The world around one call: storage, the number of reads issued to it so far, the audit
  stream (one entry per line written to stderr, oldest first), the clock, and the
  process-wide fallback credential \<^verbatim>\<open>process.env.PEI_AUTH_TOKEN\<close>. A call is short; the
  clock is read as one instant throughout it.
\<close>

record world =
  db :: storage
  reads :: nat
  auditTrail :: "AuditLogEntry list"
  now :: int
  PEI_AUTH_TOKEN :: "string option"

text \<open>
  What the core calls but does not define: the embedding service, pgvector's cosine
  distance, the JavaScript \<^verbatim>\<open>Date\<close> constructor on a string (\<open>None\<close> is \<^verbatim>\<open>Invalid Date\<close>),
  SHA-256 with hex output, the summariser behind \<^verbatim>\<open>generateSummaryWithLLM\<close> (which
  catches its own failures), the lower-casing of one character that the storage engine
  applies under the database's locale, and what the runtime's \<^verbatim>\<open>Array.prototype.sort\<close>
  returns for the impact summary's comparator when that comparator yields \<^verbatim>\<open>NaN\<close>.
\<close>

record collaborators =
  generateEmbedding :: "string \<Rightarrow> error + vector"
  cosineDistance :: "vector \<Rightarrow> vector \<Rightarrow> rat"
  newDate :: "string \<Rightarrow> int option"
  sha256hex :: "string \<Rightarrow> string"
  summarize :: "string \<Rightarrow> SearchResult list \<Rightarrow> string"
  foldCase :: "char \<Rightarrow> char"
  sortWithNaN :: "SearchResult list \<Rightarrow> SearchResult list"

section \<open>Times as date-time strings\<close>

text \<open>
  Template literals and the fields of a date-time string render a number in decimal;
  \<open>decimal\<close> does so for a number that is not negative.
\<close>

function decimal :: "int \<Rightarrow> string" where
  "decimal n =
     (if n < 10 then [''0123456789'' ! nat n]
      else decimal (n div 10) @ [''0123456789'' ! nat (n mod 10)])"
  by pat_completeness auto
termination
proof (relation "measure nat")
  show "wf (measure nat)"
    by simp
next
  fix n :: int
  assume "\<not> n < 10"
  then have "n div 10 < n"
    by (intro int_div_less_self) simp_all
  with \<open>\<not> n < 10\<close> show "(n div 10, n) \<in> measure nat"
    by simp
qed

declare decimal.simps [simp del]

definition zeroPad :: "nat \<Rightarrow> int \<Rightarrow> string" where
  "zeroPad k n = replicate (k - length (decimal n)) (CHR ''0'') @ decimal n"

text \<open>
  \<^verbatim>\<open>Date.prototype.toISOString\<close>, as ECMAScript defines it over a time value (milliseconds
  since the epoch, UTC): the day number, the year as the latest year that starts on or
  before that day, the month and date from the day within the year, the clock fields from
  the time within the day. The year is found by stepping towards the day from the year
  that would hold it if every year had 366 days.
\<close>

definition msPerDay :: int where
  "msPerDay = 86400000"

definition Day :: "int \<Rightarrow> int" where
  "Day t = t div msPerDay"

definition DaysInYear :: "int \<Rightarrow> int" where
  "DaysInYear y =
     (if y mod 4 \<noteq> 0 then 365
      else if y mod 100 \<noteq> 0 then 366
      else if y mod 400 \<noteq> 0 then 365
      else 366)"

definition DayFromYear :: "int \<Rightarrow> int" where
  "DayFromYear y =
     365 * (y - 1970) + (y - 1969) div 4 - (y - 1901) div 100 + (y - 1601) div 400"

function yearUp :: "int \<Rightarrow> int \<Rightarrow> int" where
  "yearUp d y = (if DayFromYear (y + 1) \<le> d then yearUp d (y + 1) else y)"
  by pat_completeness auto
termination
proof (relation "measure (\<lambda>(d, y). nat (d - DayFromYear y))")
  show "wf (measure (\<lambda>(d, y). nat (d - DayFromYear y)))"
    by simp
next
  fix d y :: int
  assume next_year: "DayFromYear (y + 1) \<le> d"
  have grow: "\<And>a a' b b' c c' :: int. a \<le> a' \<Longrightarrow> b' \<le> b + 1 \<Longrightarrow> c \<le> c' \<Longrightarrow>
          365 * (y - 1970) + a - b + c < 365 * (y + 1 - 1970) + a' - b' + c'"
    by simp
  have "(y - 1969) div 4 \<le> (y + 1 - 1969) div 4"
    by (rule zdiv_mono1) simp_all
  moreover have "(y + 1 - 1901) div 100 \<le> (y - 1901 + 100) div 100"
    by (rule zdiv_mono1) simp_all
  then have "(y + 1 - 1901) div 100 \<le> (y - 1901) div 100 + 1"
    by (simp only: div_add_self2)
  moreover have "(y - 1601) div 400 \<le> (y + 1 - 1601) div 400"
    by (rule zdiv_mono1) simp_all
  ultimately have "DayFromYear y < DayFromYear (y + 1)"
    unfolding DayFromYear_def by (rule grow)
  with next_year show "((d, y + 1), (d, y)) \<in> measure (\<lambda>(d, y). nat (d - DayFromYear y))"
    by simp
qed

function yearDown :: "int \<Rightarrow> int \<Rightarrow> int" where
  "yearDown d y = (if d < DayFromYear y then yearDown d (y - 1) else y)"
  by pat_completeness auto
termination
proof (relation "measure (\<lambda>(d, y). nat (DayFromYear y - d))")
  show "wf (measure (\<lambda>(d, y). nat (DayFromYear y - d)))"
    by simp
next
  fix d y :: int
  assume before: "d < DayFromYear y"
  have grow: "\<And>a a' b b' c c' :: int. a \<le> a' \<Longrightarrow> b' \<le> b + 1 \<Longrightarrow> c \<le> c' \<Longrightarrow>
          365 * (y - 1 - 1970) + a - b + c < 365 * (y - 1970) + a' - b' + c'"
    by simp
  have "(y - 1 - 1969) div 4 \<le> (y - 1969) div 4"
    by (rule zdiv_mono1) simp_all
  moreover have "(y - 1901) div 100 \<le> (y - 1 - 1901 + 100) div 100"
    by (rule zdiv_mono1) simp_all
  then have "(y - 1901) div 100 \<le> (y - 1 - 1901) div 100 + 1"
    by (simp only: div_add_self2)
  moreover have "(y - 1 - 1601) div 400 \<le> (y - 1601) div 400"
    by (rule zdiv_mono1) simp_all
  ultimately have "DayFromYear (y - 1) < DayFromYear y"
    unfolding DayFromYear_def by (rule grow)
  with before show "((d, y - 1), (d, y)) \<in> measure (\<lambda>(d, y). nat (DayFromYear y - d))"
    by simp
qed

declare yearUp.simps [simp del] yearDown.simps [simp del]

definition YearFromTime :: "int \<Rightarrow> int" where
  "YearFromTime t =
     (let d = Day t; y = 1970 + d div 366 in if 0 \<le> d then yearUp d y else yearDown d y)"

definition DayWithinYear :: "int \<Rightarrow> int" where
  "DayWithinYear t = Day t - DayFromYear (YearFromTime t)"

definition InLeapYear :: "int \<Rightarrow> int" where
  "InLeapYear t = (if DaysInYear (YearFromTime t) = 366 then 1 else 0)"

text \<open>The day of the year on which each month starts, months counted from 0.\<close>

definition monthStart :: "int \<Rightarrow> int \<Rightarrow> int" where
  "monthStart leap m =
     (if m = 0 then 0 else if m = 1 then 31 else if m = 2 then 59 + leap
      else if m = 3 then 90 + leap else if m = 4 then 120 + leap else if m = 5 then 151 + leap
      else if m = 6 then 181 + leap else if m = 7 then 212 + leap else if m = 8 then 243 + leap
      else if m = 9 then 273 + leap else if m = 10 then 304 + leap else 334 + leap)"

definition MonthFromTime :: "int \<Rightarrow> int" where
  "MonthFromTime t =
     (let d = DayWithinYear t; leap = InLeapYear t in
      if d < 31 then 0 else if d < 59 + leap then 1 else if d < 90 + leap then 2
      else if d < 120 + leap then 3 else if d < 151 + leap then 4 else if d < 181 + leap then 5
      else if d < 212 + leap then 6 else if d < 243 + leap then 7 else if d < 273 + leap then 8
      else if d < 304 + leap then 9 else if d < 334 + leap then 10 else 11)"

definition DateFromTime :: "int \<Rightarrow> int" where
  "DateFromTime t = DayWithinYear t - monthStart (InLeapYear t) (MonthFromTime t) + 1"

definition HourFromTime :: "int \<Rightarrow> int" where
  "HourFromTime t = (t div 3600000) mod 24"

definition MinFromTime :: "int \<Rightarrow> int" where
  "MinFromTime t = (t div 60000) mod 60"

definition SecFromTime :: "int \<Rightarrow> int" where
  "SecFromTime t = (t div 1000) mod 60"

definition msFromTime :: "int \<Rightarrow> int" where
  "msFromTime t = t mod 1000"

text \<open>A year outside 0 to 9999 is written with a sign and six digits.\<close>

definition yearString :: "int \<Rightarrow> string" where
  "yearString y =
     (if 0 \<le> y \<and> y \<le> 9999 then zeroPad 4 y
      else (if y < 0 then ''-'' else ''+'') @ zeroPad 6 \<bar>y\<bar>)"

definition toISOString :: "int \<Rightarrow> string" where
  "toISOString t =
     yearString (YearFromTime t) @ ''-'' @ zeroPad 2 (MonthFromTime t + 1) @ ''-''
     @ zeroPad 2 (DateFromTime t) @ ''T'' @ zeroPad 2 (HourFromTime t) @ '':''
     @ zeroPad 2 (MinFromTime t) @ '':'' @ zeroPad 2 (SecFromTime t) @ ''.''
     @ zeroPad 3 (msFromTime t) @ ''Z''"

text \<open>
  Reading a string of the ECMAScript date-time format \<^verbatim>\<open>YYYY-MM-DDTHH:mm:ss.sssZ\<close> back
  into a time value, as \<^verbatim>\<open>Date.parse\<close> does for a four-digit year; \<open>None\<close> when the string
  has another shape or a field is out of range.
\<close>

definition digitOf :: "char \<Rightarrow> int option" where
  "digitOf c =
     (let v = (of_char c :: int) in if 48 \<le> v \<and> v \<le> 57 then Some (v - 48) else None)"

fun readDigits :: "int \<Rightarrow> string \<Rightarrow> int option" where
  "readDigits acc [] = Some acc"
| "readDigits acc (c # cs) =
     (case digitOf c of None \<Rightarrow> None | Some v \<Rightarrow> readDigits (10 * acc + v) cs)"

definition parseISO :: "string \<Rightarrow> int option" where
  "parseISO s =
     (if length s \<noteq> 24 \<or> s ! 4 \<noteq> CHR ''-'' \<or> s ! 7 \<noteq> CHR ''-'' \<or> s ! 10 \<noteq> CHR ''T''
         \<or> s ! 13 \<noteq> CHR '':'' \<or> s ! 16 \<noteq> CHR '':'' \<or> s ! 19 \<noteq> CHR ''.''
         \<or> s ! 23 \<noteq> CHR ''Z''
      then None
      else
        (case (readDigits 0 (take 4 s), readDigits 0 (take 2 (drop 5 s)),
               readDigits 0 (take 2 (drop 8 s)), readDigits 0 (take 2 (drop 11 s)),
               readDigits 0 (take 2 (drop 14 s)), readDigits 0 (take 2 (drop 17 s)),
               readDigits 0 (take 3 (drop 20 s))) of
           (Some y, Some mo, Some d, Some h, Some mi, Some se, Some ms) \<Rightarrow>
             if 1 \<le> mo \<and> mo \<le> 12 \<and> 1 \<le> d \<and> d \<le> 31 \<and> h \<le> 23 \<and> mi \<le> 59 \<and> se \<le> 59
             then Some (msPerDay
                          * (DayFromYear y
                             + monthStart (if DaysInYear y = 366 then 1 else 0) (mo - 1)
                             + (d - 1))
                        + h * 3600000 + mi * 60000 + se * 1000 + ms)
             else None
         | _ \<Rightarrow> None))"

section \<open>The audit recorder\<close>

text \<open>
  \<^verbatim>\<open>services/audit.ts\<close>. \<open>auditLog\<close> stamps the entry with the current time and writes it.
  Its argument type omits \<^verbatim>\<open>timestamp\<close> and no caller passes one; the argument here is an
  entry whose timestamp is an empty placeholder, which is not a value of the source.
\<close>

definition auditLog :: "AuditLogEntry \<Rightarrow> world \<Rightarrow> world" where
  "auditLog entry w =
     w\<lparr>auditTrail := auditTrail w @ [entry\<lparr>log_timestamp := toISOString (now w)\<rparr>]\<rparr>"

datatype accessAction = search | get_details | get_timeline | get_impact_summary

fun actionName :: "accessAction \<Rightarrow> string" where
  "actionName search = ''search''"
| "actionName get_details = ''get_details''"
| "actionName get_timeline = ''get_timeline''"
| "actionName get_impact_summary = ''get_impact_summary''"

definition auditEventAccess ::
  "string \<Rightarrow> string option \<Rightarrow> accessAction \<Rightarrow> nat \<Rightarrow> string option \<Rightarrow>
   (string \<times> json) list option \<Rightarrow> world \<Rightarrow> world" where
  "auditEventAccess cid cname action resultCount sid metadata =
     auditLog
       \<lparr>log_timestamp = [],
        log_level = INFO,
        log_action = ''event_access_'' @ actionName action,
        log_callerId = cid,
        log_callerName = cname,
        log_success = True,
        log_resourceType = Some ''event'',
        log_resourceId = None,
        log_serviceId = sid,
        log_message = Some (''Accessed '' @ decimal (int resultCount) @ '' event(s)''),
        log_metadata = metadata\<rparr>"

datatype authFailureReason = missing_token | invalid_token | expired_token

fun reasonName :: "authFailureReason \<Rightarrow> string" where
  "reasonName missing_token = ''missing_token''"
| "reasonName invalid_token = ''invalid_token''"
| "reasonName expired_token = ''expired_token''"

definition auditAuthFailure ::
  "string \<Rightarrow> authFailureReason \<Rightarrow> (string \<times> json) list option \<Rightarrow> world \<Rightarrow> world" where
  "auditAuthFailure cid reason metadata =
     auditLog
       \<lparr>log_timestamp = [],
        log_level = WARNING,
        log_action = ''authentication_failure'',
        log_callerId = cid,
        log_callerName = None,
        log_success = False,
        log_resourceType = None,
        log_resourceId = None,
        log_serviceId = None,
        log_message = Some (''Authentication failed: '' @ reasonName reason),
        log_metadata = metadata\<rparr>"

definition auditAuthorizationDenied ::
  "string \<Rightarrow> string option \<Rightarrow> string \<Rightarrow> string \<Rightarrow> (string \<times> json) list option \<Rightarrow>
   world \<Rightarrow> world" where
  "auditAuthorizationDenied cid cname sid action metadata =
     auditLog
       \<lparr>log_timestamp = [],
        log_level = WARNING,
        log_action = ''authorization_denied'',
        log_callerId = cid,
        log_callerName = cname,
        log_success = False,
        log_resourceType = Some ''service'',
        log_resourceId = None,
        log_serviceId = Some sid,
        log_message = Some (''Access denied to service: '' @ sid),
        log_metadata = metadata\<rparr>"

definition auditAuthSuccess ::
  "string \<Rightarrow> string option \<Rightarrow> (string \<times> json) list option \<Rightarrow> world \<Rightarrow> world" where
  "auditAuthSuccess cid cname metadata =
     auditLog
       \<lparr>log_timestamp = [],
        log_level = INFO,
        log_action = ''authentication_success'',
        log_callerId = cid,
        log_callerName = cname,
        log_success = True,
        log_resourceType = None,
        log_resourceId = None,
        log_serviceId = None,
        log_message = Some ''Authentication successful'',
        log_metadata = metadata\<rparr>"

section \<open>The pattern dialect of the keyword match\<close>

text \<open>
  \<^verbatim>\<open>escapeLikePattern\<close> (\<^verbatim>\<open>services/events.ts\<close>) makes three passes over the query, each a
  global replacement of one character by a backslash and that character: first the
  backslash itself, then the percent sign, then the underscore.
\<close>

definition backslash :: char where
  "backslash = CHR 0x5C"

definition replaceAll :: "char \<Rightarrow> string \<Rightarrow> string \<Rightarrow> string" where
  "replaceAll c r s = concat (map (\<lambda>x. if x = c then r else [x]) s)"

definition escapeLikePattern :: "string \<Rightarrow> string" where
  "escapeLikePattern pattern =
     replaceAll (CHR ''_'') [backslash, CHR ''_'']
       (replaceAll (CHR ''%'') [backslash, CHR ''%'']
         (replaceAll backslash [backslash, backslash] pattern))"

text \<open>
  The storage engine's \<^verbatim>\<open>ILIKE\<close>, as PostgreSQL documents it: in a pattern a percent sign
  stands for any run of characters, an underscore for any one character, a backslash makes
  the character after it stand for itself, and a pattern that ends in a lone backslash is an
  error. The engine raises the error when the matcher reaches the lone backslash; here
  such a pattern is rejected outright. The comparison ignores letter case: text and pattern
  are lower-cased first, one character at a time. Which letters are folded, and onto what,
  is the database locale's: \<open>foldCase\<close> stands for it. The three pattern markers are letters
  in no locale: a folding neither changes one nor produces one, and \<open>lowerChar\<close> holds
  \<open>foldCase\<close> to that.
\<close>

datatype patternToken = AnySeq | AnyChar | Lit char

fun parsePattern :: "string \<Rightarrow> patternToken list option" where
  "parsePattern [] = Some []"
| "parsePattern (c # cs) =
     (if c = backslash then
        (case cs of
           [] \<Rightarrow> None
         | d # ds \<Rightarrow> map_option (\<lambda>ts. Lit d # ts) (parsePattern ds))
      else if c = CHR ''%'' then map_option (\<lambda>ts. AnySeq # ts) (parsePattern cs)
      else if c = CHR ''_'' then map_option (\<lambda>ts. AnyChar # ts) (parsePattern cs)
      else map_option (\<lambda>ts. Lit c # ts) (parsePattern cs))"

fun matches :: "patternToken list \<Rightarrow> string \<Rightarrow> bool" where
  "matches [] s = (s = [])"
| "matches (AnySeq # ts) [] = matches ts []"
| "matches (AnySeq # ts) (c # cs) = (matches ts (c # cs) \<or> matches (AnySeq # ts) cs)"
| "matches (AnyChar # ts) [] = False"
| "matches (AnyChar # ts) (c # cs) = matches ts cs"
| "matches (Lit d # ts) [] = False"
| "matches (Lit d # ts) (c # cs) = (c = d \<and> matches ts cs)"

definition marker :: "char \<Rightarrow> bool" where
  "marker c = (c = backslash \<or> c = CHR ''%'' \<or> c = CHR ''_'')"

definition lowerChar :: "collaborators \<Rightarrow> char \<Rightarrow> char" where
  "lowerChar env c = (let d = foldCase env c in if marker c \<or> marker d then c else d)"

definition lower :: "collaborators \<Rightarrow> string \<Rightarrow> string" where
  "lower env s = map (lowerChar env) s"

definition ilike :: "collaborators \<Rightarrow> string \<Rightarrow> string \<Rightarrow> error + bool" where
  "ilike env s pattern =
     (case parsePattern (lower env pattern) of
        None \<Rightarrow> Inl MalformedPattern
      | Some ts \<Rightarrow> Inr (matches ts (lower env s)))"

section \<open>The query gate\<close>

text \<open>
  \<^verbatim>\<open>services/events.ts\<close>, the revision that imports the audit recorder (the file
  \<^verbatim>\<open>unnamed/part_004\<close>). Its input is what \<^verbatim>\<open>SearchEventsInputSchema\<close> parses: the optional
  fields are strings or absent, \<^verbatim>\<open>limit\<close> is a number from 1 to 50.
\<close>

record SearchEventsInput =
  input_query :: string
  input_serviceId :: "string option"
  input_eventType :: "string option"
  input_severity :: "string option"
  input_startDate :: "string option"
  input_endDate :: "string option"
  input_limit :: nat
  input_useSemanticSearch :: bool

type_synonym condition = "event \<Rightarrow> bool"

text \<open>
  \<^verbatim>\<open>if (input.serviceId) conditions.push(eq(...))\<close>: an absent field and the empty string
  are both falsy and add no condition.
\<close>

definition eqFilter :: "(event \<Rightarrow> string) \<Rightarrow> string option \<Rightarrow> condition list" where
  "eqFilter col v =
     (case v of
        None \<Rightarrow> []
      | Some s \<Rightarrow> if s = [] then [] else [\<lambda>e. col e = s])"

text \<open>
  A date bound, given the \<^verbatim>\<open>Date\<close> object (\<open>None\<close> is \<^verbatim>\<open>Invalid Date\<close>): binding an invalid
  date as a parameter raises.
\<close>

definition dateCondition ::
  "(int \<Rightarrow> int \<Rightarrow> bool) \<Rightarrow> int option \<Rightarrow> error + condition list" where
  "dateCondition cmp d =
     (case d of
        None \<Rightarrow> Inl InvalidTimeValue
      | Some t \<Rightarrow> Inr [\<lambda>e. cmp (row_occurredAt e) t])"

definition dateFilter ::
  "collaborators \<Rightarrow> (int \<Rightarrow> int \<Rightarrow> bool) \<Rightarrow> string option \<Rightarrow> error + condition list" where
  "dateFilter env cmp v =
     (case v of
        None \<Rightarrow> Inr []
      | Some s \<Rightarrow> if s = [] then Inr [] else dateCondition cmp (newDate env s))"

definition optionalFilters ::
  "collaborators \<Rightarrow> SearchEventsInput \<Rightarrow> error + condition list" where
  "optionalFilters env input =
     (case dateFilter env (\<lambda>a b. b \<le> a) (input_startDate input) of
        Inl e \<Rightarrow> Inl e
      | Inr ge \<Rightarrow>
          (case dateFilter env (\<lambda>a b. a \<le> b) (input_endDate input) of
             Inl e \<Rightarrow> Inl e
           | Inr le \<Rightarrow>
               Inr (eqFilter row_serviceId (input_serviceId input)
                    @ eqFilter row_eventType (input_eventType input)
                    @ eqFilter row_severity (input_severity input)
                    @ ge @ le)))"

text \<open>
  The authorization condition of both search modes. \<^verbatim>\<open>inArray\<close> over an empty list is
  the condition that no row meets.
\<close>

definition authorizationCondition :: "McpCallerContext \<Rightarrow> condition list" where
  "authorizationCondition context =
     (case getAuthorizedServiceFilter context of
        AllServices \<Rightarrow> []
      | Only svcs \<Rightarrow> [\<lambda>e. row_serviceId e \<in> set svcs])"

text \<open>
  \<^verbatim>\<open>or(ilike(events.title, p), ilike(events.description, p))\<close>; a null description makes
  the second disjunct null, which selects nothing.
\<close>

definition keywordCondition :: "collaborators \<Rightarrow> string \<Rightarrow> error + condition" where
  "keywordCondition env pattern =
     (case parsePattern (lower env pattern) of
        None \<Rightarrow> Inl MalformedPattern
      | Some ts \<Rightarrow>
          Inr (\<lambda>e. matches ts (lower env (row_title e))
                    \<or> (case row_description e of
                          None \<Rightarrow> False
                        | Some d \<Rightarrow> matches ts (lower env d))))"

text \<open>
  One read of the \<^verbatim>\<open>events\<close> table: \<^verbatim>\<open>where(and(...conditions))\<close>, an ordering, a limit.
  SQL leaves the order of rows with equal keys open; the orderings used below are stable
  sorts, which keep the table's order among equals.
\<close>

definition selectEvents ::
  "condition list \<Rightarrow> (event list \<Rightarrow> event list) \<Rightarrow> nat \<Rightarrow> world \<Rightarrow>
   (error + event list) \<times> world" where
  "selectEvents conditions orderBy limit w =
     ((if reachable (db w)
       then Inr (take limit (orderBy (filter (\<lambda>e. list_all (\<lambda>c. c e) conditions) (events (db w)))))
       else Inl StorageUnavailable),
      w\<lparr>reads := Suc (reads w)\<rparr>)"

definition byRecency :: "event list \<Rightarrow> event list" where
  "byRecency rows = sort_key (\<lambda>e. - row_occurredAt e) rows"

definition toResult :: "rat option \<Rightarrow> event \<Rightarrow> SearchResult" where
  "toResult sc e =
     \<lparr>id' = row_id e,
      serviceId = row_serviceId e,
      eventType = row_eventType e,
      severity = row_severity e,
      title = row_title e,
      description = row_description e,
      occurredAt = row_occurredAt e,
      score = sc\<rparr>"

definition keywordSearch ::
  "collaborators \<Rightarrow> SearchEventsInput \<Rightarrow> McpCallerContext \<Rightarrow> world \<Rightarrow>
   (error + SearchResult list) \<times> world" where
  "keywordSearch env input context w =
     (case optionalFilters env input of
        Inl e \<Rightarrow> (Inl e, w)
      | Inr optional \<Rightarrow>
          (case keywordCondition env (''%'' @ escapeLikePattern (input_query input) @ ''%'') of
             Inl e \<Rightarrow> (Inl e, w)
           | Inr keyword \<Rightarrow>
               (case selectEvents (authorizationCondition context @ optional @ [keyword])
                       byRecency (input_limit input) w of
                  (Inl e, w') \<Rightarrow> (Inl e, w')
                | (Inr rows, w') \<Rightarrow> (Inr (map (toResult None) rows), w'))))"

text \<open>
  Similarity search: the query is embedded first; rows without an embedding are left out;
  rows are ordered by distance to the query vector and carry \<open>1 - distance\<close> as score.
\<close>

definition distanceTo :: "collaborators \<Rightarrow> vector \<Rightarrow> event \<Rightarrow> rat" where
  "distanceTo env q e =
     (case row_embedding e of
        None \<Rightarrow> 0
      | Some v \<Rightarrow> cosineDistance env v q)"

definition semanticSearch ::
  "collaborators \<Rightarrow> SearchEventsInput \<Rightarrow> McpCallerContext \<Rightarrow> world \<Rightarrow>
   (error + SearchResult list) \<times> world" where
  "semanticSearch env input context w =
     (case generateEmbedding env (input_query input) of
        Inl e \<Rightarrow> (Inl e, w)
      | Inr queryEmbedding \<Rightarrow>
          (case optionalFilters env input of
             Inl e \<Rightarrow> (Inl e, w)
           | Inr optional \<Rightarrow>
               (case selectEvents
                       (authorizationCondition context @ optional
                        @ [\<lambda>e. row_embedding e \<noteq> None])
                       (sort_key (distanceTo env queryEmbedding)) (input_limit input) w of
                  (Inl e, w') \<Rightarrow> (Inl e, w')
                | (Inr rows, w') \<Rightarrow>
                    (Inr (map (\<lambda>e. toResult (Some (1 - distanceTo env queryEmbedding e)) e) rows),
                     w'))))"

definition optJStr :: "string option \<Rightarrow> json" where
  "optJStr v = (case v of None \<Rightarrow> JUndefined | Some s \<Rightarrow> JStr s)"

definition searchEvents ::
  "collaborators \<Rightarrow> SearchEventsInput \<Rightarrow> McpCallerContext \<Rightarrow> world \<Rightarrow>
   (error + SearchResult list) \<times> world" where
  "searchEvents env input context w =
     (case (if input_useSemanticSearch input then semanticSearch env input context w
            else keywordSearch env input context w) of
        (Inl e, w') \<Rightarrow> (Inl e, w')
      | (Inr results, w') \<Rightarrow>
          (Inr results,
           auditEventAccess (callerId context) (callerName context) search (length results)
             (input_serviceId input)
             (Some [(''query'', JStr (input_query input)),
                    (''searchType'',
                     JStr (if input_useSemanticSearch input then ''semantic'' else ''keyword'')),
                    (''filters'',
                     JObj [(''eventType'', optJStr (input_eventType input)),
                           (''severity'', optJStr (input_severity input)),
                           (''startDate'', optJStr (input_startDate input)),
                           (''endDate'', optJStr (input_endDate input))])])
             w'))"

text \<open>
  \<^verbatim>\<open>getEventById\<close>: the row is fetched by identity whoever asks; the three outcomes each
  write one entry through \<open>auditEventAccess\<close>.
\<close>

definition getEventById ::
  "collaborators \<Rightarrow> string \<Rightarrow> McpCallerContext \<Rightarrow> world \<Rightarrow>
   (error + SearchResult option) \<times> world" where
  "getEventById env eventId context w =
     (case selectEvents [\<lambda>e. row_id e = eventId] (\<lambda>rows. rows) 1 w of
        (Inl e, w') \<Rightarrow> (Inl e, w')
      | (Inr [], w') \<Rightarrow>
          (Inr None,
           auditEventAccess (callerId context) (callerName context) get_details 0 None
             (Some [(''eventId'', JStr eventId), (''reason'', JStr ''not_found'')]) w')
      | (Inr (event # _), w') \<Rightarrow>
          (if \<not> admits (getAuthorizedServiceFilter context) (row_serviceId event)
           then
             (Inr None,
              auditEventAccess (callerId context) (callerName context) get_details 0
                (Some (row_serviceId event))
                (Some [(''eventId'', JStr eventId), (''reason'', JStr ''unauthorized'')]) w')
           else
             (Inr (Some (toResult None event)),
              auditEventAccess (callerId context) (callerName context) get_details 1
                (Some (row_serviceId event))
                (Some [(''eventId'', JStr eventId),
                       (''eventType'', JStr (row_eventType event)),
                       (''severity'', JStr (row_severity event))]) w')))"

text \<open>
  \<^verbatim>\<open>getServiceTimeline\<close> takes \<^verbatim>\<open>Date | undefined\<close> bounds: \<open>None\<close> is \<^verbatim>\<open>undefined\<close>,
  \<open>Some None\<close> an \<^verbatim>\<open>Invalid Date\<close> object (which is truthy).
\<close>

definition timelineBound ::
  "(int \<Rightarrow> int \<Rightarrow> bool) \<Rightarrow> int option option \<Rightarrow> error + condition list" where
  "timelineBound cmp d = (case d of None \<Rightarrow> Inr [] | Some t \<Rightarrow> dateCondition cmp t)"

definition optISO :: "int option option \<Rightarrow> json" where
  "optISO d =
     (case d of
        Some (Some t) \<Rightarrow> JStr (toISOString t)
      | _ \<Rightarrow> JUndefined)"

definition getServiceTimeline ::
  "collaborators \<Rightarrow> string \<Rightarrow> int option option \<Rightarrow> int option option \<Rightarrow> nat \<Rightarrow>
   McpCallerContext \<Rightarrow> world \<Rightarrow> (error + SearchResult list) \<times> world" where
  "getServiceTimeline env sid startDate endDate limit context w =
     (if \<not> admits (getAuthorizedServiceFilter context) sid
      then
        (Inr [],
         auditEventAccess (callerId context) (callerName context) get_timeline 0 (Some sid)
           (Some [(''reason'', JStr ''unauthorized'')]) w)
      else
        (case timelineBound (\<lambda>a b. b \<le> a) startDate of
           Inl e \<Rightarrow> (Inl e, w)
         | Inr ge \<Rightarrow>
             (case timelineBound (\<lambda>a b. a \<le> b) endDate of
                Inl e \<Rightarrow> (Inl e, w)
              | Inr le \<Rightarrow>
                  (case selectEvents ([\<lambda>e. row_serviceId e = sid] @ ge @ le) byRecency limit w of
                     (Inl e, w') \<Rightarrow> (Inl e, w')
                   | (Inr rows, w') \<Rightarrow>
                       (Inr (map (toResult None) rows),
                        auditEventAccess (callerId context) (callerName context) get_timeline
                          (length rows) (Some sid)
                          (Some [(''startDate'', optISO startDate),
                                 (''endDate'', optISO endDate),
                                 (''limit'', JNum (int limit))]) w')))))"

section \<open>The impact summary\<close>

text \<open>
  \<^verbatim>\<open>services/impact-summary.ts\<close>. It reads through \<open>getServiceTimeline\<close>, which writes its
  own audit entry, and then writes one of its own. The summariser receives the events
  ordered by severity, then recency; \<^verbatim>\<open>Array.prototype.sort\<close> is stable. The severity
  column is free text: a severity outside the table makes the comparator return \<^verbatim>\<open>NaN\<close>,
  and the order is then what the runtime's sort makes of it, \<open>sortWithNaN\<close>.
\<close>

record GetImpactSummaryInput =
  sum_serviceId :: string
  sum_startDate :: "string option"
  sum_endDate :: "string option"
  sum_maxEvents :: nat

definition SEVERITY_PRIORITY :: "string \<Rightarrow> int option" where
  "SEVERITY_PRIORITY =
     map_of [(''critical'', 4), (''error'', 3), (''warning'', 2), (''info'', 1)]"

definition ranked :: "SearchResult \<Rightarrow> bool" where
  "ranked r = (case SEVERITY_PRIORITY (severity r) of None \<Rightarrow> False | Some p \<Rightarrow> True)"

definition priority :: "SearchResult \<Rightarrow> int" where
  "priority r = (case SEVERITY_PRIORITY (severity r) of None \<Rightarrow> 0 | Some p \<Rightarrow> p)"

definition prioritize :: "collaborators \<Rightarrow> SearchResult list \<Rightarrow> SearchResult list" where
  "prioritize env rs =
     (if list_all ranked rs
      then sort_key (\<lambda>r. - priority r) (sort_key (\<lambda>r. - occurredAt r) rs)
      else sortWithNaN env rs)"

text \<open>\<^verbatim>\<open>input.startDate ? new Date(input.startDate) : undefined\<close>\<close>

definition toDate :: "collaborators \<Rightarrow> string option \<Rightarrow> int option option" where
  "toDate env v =
     (case v of
        None \<Rightarrow> None
      | Some s \<Rightarrow> if s = [] then None else Some (newDate env s))"

definition generateImpactSummary ::
  "collaborators \<Rightarrow> GetImpactSummaryInput \<Rightarrow> McpCallerContext \<Rightarrow> world \<Rightarrow>
   (error + string) \<times> world" where
  "generateImpactSummary env input context w =
     (case getServiceTimeline env (sum_serviceId input) (toDate env (sum_startDate input))
             (toDate env (sum_endDate input)) (sum_maxEvents input) context w of
        (Inl e, w') \<Rightarrow> (Inl e, w')
      | (Inr [], w') \<Rightarrow>
          (Inr (''No significant events found for service '' @ [CHR 0x22] @ sum_serviceId input
                @ [CHR 0x22] @ '' in the specified time range.''),
           auditEventAccess (callerId context) (callerName context) get_impact_summary 0
             (Some (sum_serviceId input)) (Some [(''reason'', JStr ''no_events'')]) w')
      | (Inr (r # rs), w') \<Rightarrow>
          (Inr (summarize env (sum_serviceId input) (prioritize env (r # rs))),
           auditEventAccess (callerId context) (callerName context) get_impact_summary
             (length (r # rs)) (Some (sum_serviceId input))
             (Some [(''startDate'', optJStr (sum_startDate input)),
                    (''endDate'', optJStr (sum_endDate input)),
                    (''eventCount'', JNum (int (length (r # rs))))]) w'))"

section \<open>The credential resolver\<close>

text \<open>
  \<^verbatim>\<open>mcp/auth.ts\<close>. The argument is \<^verbatim>\<open>unknown\<close>; truthiness, \<^verbatim>\<open>typeof x === 'object'\<close> and
  property access are those of JavaScript.
\<close>

fun truthy :: "json \<Rightarrow> bool" where
  "truthy JUndefined = False"
| "truthy JNull = False"
| "truthy (JBool b) = b"
| "truthy (JNum n) = (n \<noteq> 0)"
| "truthy (JStr s) = (s \<noteq> [])"
| "truthy (JArr xs) = True"
| "truthy (JObj fs) = True"

fun typeofObject :: "json \<Rightarrow> bool" where
  "typeofObject JNull = True"
| "typeofObject (JArr xs) = True"
| "typeofObject (JObj fs) = True"
| "typeofObject v = False"

fun property :: "json \<Rightarrow> string \<Rightarrow> json" where
  "property (JObj fs) k = (case map_of fs k of None \<Rightarrow> JUndefined | Some v \<Rightarrow> v)"
| "property v k = JUndefined"

text \<open>The result \<open>JNull\<close> is the source's \<^verbatim>\<open>null\<close>.\<close>

definition extractMetadata :: "json \<Rightarrow> json" where
  "extractMetadata extra =
     (if \<not> truthy extra \<or> \<not> typeofObject extra then JNull
      else
        (case extra of
           JObj fs \<Rightarrow>
             (case map_of fs ''metadata'' of
                None \<Rightarrow> JNull
              | Some m \<Rightarrow> if typeofObject m then m else JNull)
         | _ \<Rightarrow> JNull))"

text \<open>\<^verbatim>\<open>metadata?.authToken || process.env.PEI_AUTH_TOKEN\<close>\<close>

definition presentedToken :: "json \<Rightarrow> world \<Rightarrow> json" where
  "presentedToken extra w =
     (let perCall = property (extractMetadata extra) ''authToken''
      in if truthy perCall then perCall else optJStr (PEI_AUTH_TOKEN w))"

definition hashToken :: "collaborators \<Rightarrow> string \<Rightarrow> string" where
  "hashToken env token = sha256hex env token"

definition selectToken :: "string \<Rightarrow> world \<Rightarrow> (error + apiToken list) \<times> world" where
  "selectToken tokenHash w =
     ((if reachable (db w)
       then Inr (take 1 (filter (\<lambda>t. tok_tokenHash t = tokenHash) (apiTokens (db w))))
       else Inl StorageUnavailable),
      w\<lparr>reads := Suc (reads w)\<rparr>)"

text \<open>
  The bookkeeping write is issued and not awaited; its failure is only logged. It follows a
  read that was answered, and is applied.
\<close>

definition touchLastUsed :: "string \<Rightarrow> world \<Rightarrow> world" where
  "touchLastUsed tid w =
     w\<lparr>db := (db w)\<lparr>apiTokens :=
          map (\<lambda>t. if tok_id t = tid then t\<lparr>tok_lastUsedAt := Some (now w)\<rparr> else t)
            (apiTokens (db w))\<rparr>\<rparr>"

definition noAccess :: "string \<Rightarrow> McpCallerContext" where
  "noAccess cid =
     \<lparr>callerId = cid, authorizedServices = [], callerName = None, callerType = Token\<rparr>"

text \<open>The tail of \<open>resolveCallerContext\<close>, reached by a record that has not expired.\<close>

definition grantAccess ::
  "collaborators \<Rightarrow> apiToken \<Rightarrow> world \<Rightarrow> (error + McpCallerContext) \<times> world" where
  "grantAccess env tokenRecord w =
     (Inr \<lparr>callerId = tok_id tokenRecord,
           authorizedServices = tok_authorizedServices tokenRecord,
           callerName = Some (tok_name tokenRecord),
           callerType = Token\<rparr>,
      auditAuthSuccess (tok_id tokenRecord) (Some (tok_name tokenRecord))
        (Some [(''authorizedServices'', JArr (map JStr (tok_authorizedServices tokenRecord)))])
        (touchLastUsed (tok_id tokenRecord) w))"

definition resolveCallerContext ::
  "collaborators \<Rightarrow> json \<Rightarrow> world \<Rightarrow> (error + McpCallerContext) \<times> world" where
  "resolveCallerContext env extra w =
     (let authToken = presentedToken extra w in
      if \<not> truthy authToken
      then (Inr (noAccess ''anonymous''), auditAuthFailure ''anonymous'' missing_token None w)
      else
        (case authToken of
           JStr token \<Rightarrow>
             (let tokenHash = hashToken env token in
              case selectToken tokenHash w of
                (Inl e, w') \<Rightarrow> (Inl e, w')
              | (Inr [], w') \<Rightarrow>
                  (Inr (noAccess ''invalid''),
                   auditAuthFailure ''unknown'' invalid_token
                     (Some [(''tokenHash'', JStr tokenHash)]) w')
              | (Inr (tokenRecord # _), w') \<Rightarrow>
                  (case tok_expiresAt tokenRecord of
                     None \<Rightarrow> grantAccess env tokenRecord w'
                   | Some expiresAt \<Rightarrow>
                       if expiresAt < now w'
                       then
                         (Inr (noAccess (tok_id tokenRecord)),
                          auditAuthFailure (tok_id tokenRecord) expired_token
                            (Some [(''name'', JStr (tok_name tokenRecord)),
                                   (''expiresAt'', JStr (toISOString expiresAt))]) w')
                       else grantAccess env tokenRecord w'))
         | _ \<Rightarrow> (Inl InvalidArgType, w)))"

section \<open>The earlier revision of similarity search\<close>

text \<open>
  The sources hold two revisions of the events module. The one modelled above writes to the
  audit recorder, which the credential resolver and the impact summary import as well. The
  other (the second document of \<^verbatim>\<open>src/services/audit.ts\<close>) predates the recorder; its
  \<^verbatim>\<open>semanticSearch\<close> names its context \<^verbatim>\<open>_context\<close> and never reads it. It is kept here
  only to show what the entitlement condition in the present revision prevents.
\<close>

definition semanticSearch_earlier ::
  "collaborators \<Rightarrow> SearchEventsInput \<Rightarrow> McpCallerContext \<Rightarrow> world \<Rightarrow>
   (error + SearchResult list) \<times> world" where
  "semanticSearch_earlier env input context w =
     (case generateEmbedding env (input_query input) of
        Inl e \<Rightarrow> (Inl e, w)
      | Inr queryEmbedding \<Rightarrow>
          (case optionalFilters env input of
             Inl e \<Rightarrow> (Inl e, w)
           | Inr optional \<Rightarrow>
               (case selectEvents (optional @ [\<lambda>e. row_embedding e \<noteq> None])
                       (sort_key (distanceTo env queryEmbedding)) (input_limit input) w of
                  (Inl e, w') \<Rightarrow> (Inl e, w')
                | (Inr rows, w') \<Rightarrow>
                    (Inr (map (\<lambda>e. toResult (Some (1 - distanceTo env queryEmbedding e)) e) rows),
                     w'))))"

section \<open>The spec's terms for the keyword match\<close>

text \<open>
  What the spec asks of the keyword match, in its own terms: the query occurs in the text
  as a run of consecutive characters. \<open>sublist\<close> is that relation; \<open>containsIgnoringCase\<close>
  compares as \<^verbatim>\<open>ILIKE\<close> compares, after the engine has lower-cased both sides. \<open>escapeChar\<close>
  is the effect of the three replacement passes on one character.
\<close>

definition containsIgnoringCase :: "collaborators \<Rightarrow> string \<Rightarrow> string \<Rightarrow> bool" where
  "containsIgnoringCase env q s = sublist (lower env q) (lower env s)"

definition mentions :: "collaborators \<Rightarrow> string \<Rightarrow> event \<Rightarrow> bool" where
  "mentions env q e =
     (containsIgnoringCase env q (row_title e)
      \<or> (case row_description e of
            None \<Rightarrow> False
          | Some d \<Rightarrow> containsIgnoringCase env q d))"

definition escapeChar :: "char \<Rightarrow> string" where
  "escapeChar c =
     (if c = backslash \<or> c = CHR ''%'' \<or> c = CHR ''_'' then [backslash, c] else [c])"

section \<open>The spec's terms for an access entry\<close>

text \<open>
  An audit entry for an access to events, as the spec describes it: the action names the
  operation, the timestamp parses as ISO-8601 to the time of emission, and the message
  carries the count of records returned.
\<close>

definition accessEntry :: "world \<Rightarrow> accessAction \<Rightarrow> nat \<Rightarrow> AuditLogEntry \<Rightarrow> bool" where
  "accessEntry w action n entry =
     (log_action entry = ''event_access_'' @ actionName action
      \<and> parseISO (log_timestamp entry) = Some (now w)
      \<and> log_resourceType entry = Some ''event''
      \<and> log_message entry = Some (''Accessed '' @ decimal (int n) @ '' event(s)''))"

section \<open>A small deployment\<close>

text \<open>
  Two tenants with one event each, a credential scoped to the first tenant and an expired
  administrative credential; the collaborators are stand-ins that answer as the real ones
  would on the inputs used below. Characters are read as Latin-1: \<open>eAcute\<close> and \<open>EAcute\<close>
  are the letter e with an acute accent, small and capital, and the stand-in for the
  locale folds the capitals A to Z and that capital.
\<close>

definition eAcute :: char where
  "eAcute = CHR 0xE9"

definition EAcute :: char where
  "EAcute = CHR 0xC9"

definition demoFold :: "char \<Rightarrow> char" where
  "demoFold c =
     (case map_of (zip (''ABCDEFGHIJKLMNOPQRSTUVWXYZ'' @ [EAcute])
                       (''abcdefghijklmnopqrstuvwxyz'' @ [eAcute])) c of
        None \<Rightarrow> c
      | Some d \<Rightarrow> d)"

definition demoEnv :: collaborators where
  "demoEnv =
     \<lparr>generateEmbedding = (\<lambda>s. Inr [1, 0]),
      cosineDistance = (\<lambda>a b. if a = b then 0 else 1),
      newDate = (\<lambda>s. if s = ''2024-01-01T00:00:00.000Z'' then Some 1704067200000 else None),
      sha256hex = (\<lambda>s. ''sha256:'' @ s),
      summarize = (\<lambda>sid rs. ''Impact Summary for '' @ sid),
      foldCase = demoFold,
      sortWithNaN = (\<lambda>rs. rs)\<rparr>"

definition eventA :: event where
  "eventA =
     \<lparr>row_id = ''e1'', row_serviceId = ''svc-a'', row_eventType = ''incident'',
      row_severity = ''critical'', row_title = ''Login outage'',
      row_description = Some ''50% of sign-ins fail'', row_embedding = Some [1, 0],
      row_occurredAt = 1000\<rparr>"

definition eventB :: event where
  "eventB =
     \<lparr>row_id = ''e2'', row_serviceId = ''svc-b'', row_eventType = ''incident'',
      row_severity = ''error'', row_title = ''login outage'',
      row_description = None, row_embedding = Some [1, 0],
      row_occurredAt = 2000\<rparr>"

definition tokenA :: apiToken where
  "tokenA =
     \<lparr>tok_id = ''t1'', tok_tokenHash = ''sha256:secret-a'', tok_name = ''Team A'',
      tok_authorizedServices = [''svc-a''], tok_createdBy = ''admin'',
      tok_expiresAt = None, tok_lastUsedAt = None, tok_createdAt = 0\<rparr>"

definition tokenOld :: apiToken where
  "tokenOld =
     \<lparr>tok_id = ''t2'', tok_tokenHash = ''sha256:secret-old'', tok_name = ''Old admin'',
      tok_authorizedServices = [''*''], tok_createdBy = ''admin'',
      tok_expiresAt = Some 500, tok_lastUsedAt = None, tok_createdAt = 0\<rparr>"

definition demoWorld :: world where
  "demoWorld =
     \<lparr>db = \<lparr>events = [eventA, eventB], apiTokens = [tokenA, tokenOld], reachable = True\<rparr>,
      reads = 0, auditTrail = [], now = 1704067200000, PEI_AUTH_TOKEN = None\<rparr>"

text \<open>The same deployment with storage down.\<close>

definition downWorld :: world where
  "downWorld = demoWorld\<lparr>db := (db demoWorld)\<lparr>reachable := False\<rparr>\<rparr>"

text \<open>The same deployment before the second tenant's event was ingested.\<close>

definition earlierWorld :: world where
  "earlierWorld = demoWorld\<lparr>db := (db demoWorld)\<lparr>events := [eventA]\<rparr>\<rparr>"




definition callerA :: McpCallerContext where
  "callerA =
     \<lparr>callerId = ''t1'', authorizedServices = [''svc-a''], callerName = Some ''Team A'',
      callerType = Token\<rparr>"

definition callerNone :: McpCallerContext where
  "callerNone =
     \<lparr>callerId = ''anonymous'', authorizedServices = [], callerName = None,
      callerType = Token\<rparr>"


definition demoInput :: SearchEventsInput where
  "demoInput =
     \<lparr>input_query = ''LOGIN'', input_serviceId = None, input_eventType = None,
      input_severity = None, input_startDate = None, input_endDate = None,
      input_limit = 10, input_useSemanticSearch = True\<rparr>"

definition demoSummaryInput :: GetImpactSummaryInput where
  "demoSummaryInput =
     \<lparr>sum_serviceId = ''svc-a'', sum_startDate = None, sum_endDate = None,
      sum_maxEvents = 20\<rparr>"

definition bearer :: "string \<Rightarrow> json" where
  "bearer token = JObj [(''metadata'', JObj [(''authToken'', JStr token)])]"

section \<open>Coherence of the entitlement evaluator\<close>

lemma admits_filter: "admits (getAuthorizedServiceFilter c) t = isAuthorizedForService c t"
  by (simp add: getAuthorizedServiceFilter_def isAuthorizedForService_def)

text \<open>
  Claim C9. For every caller context and tenant, \<open>isAuthorizedForService\<close> answers true
  exactly when \<open>getAuthorizedServiceFilter\<close> returns the sentinel or a list holding the
  tenant; hence a path that enforces the returned filter admits exactly the tenants that
  \<open>isAuthorizedForService\<close> admits. Both are HOL functions of the context alone, which is
  what purity and determinism amount to.
\<close>

theorem entitlement_coherence:
  "isAuthorizedForService c t =
     (getAuthorizedServiceFilter c = AllServices
      \<or> (\<exists>svcs. getAuthorizedServiceFilter c = Only svcs \<and> t \<in> set svcs))
   \<and> admits (getAuthorizedServiceFilter c) t = isAuthorizedForService c t"
  by (simp add: getAuthorizedServiceFilter_def isAuthorizedForService_def)

section \<open>Facts about reads of storage\<close>

lemma take1_filter:
  "take (Suc 0) (filter P xs) = (case find P xs of None \<Rightarrow> [] | Some x \<Rightarrow> [x])"
  by (induction xs) simp_all

lemma find_absent: "find P xs = None \<longleftrightarrow> (\<forall>x\<in>set xs. \<not> P x)"
  by (induction xs) simp_all

lemma selectEvents_rows:
  assumes "selectEvents cs ord n w = (Inr rows, w')"
    and "\<And>xs. set (ord xs) = set xs"
    and "e \<in> set rows"
    and "c \<in> set cs"
  shows "c e"
proof -
  from assms(1)
  have "rows = take n (ord (filter (\<lambda>e. list_all (\<lambda>c. c e) cs) (events (db w))))"
    by (simp add: selectEvents_def split: if_splits)
  with assms(3) have "e \<in> set (ord (filter (\<lambda>e. list_all (\<lambda>c. c e) cs) (events (db w))))"
    by (auto dest: in_set_takeD)
  with assms(2) have "list_all (\<lambda>c. c e) cs"
    by simp
  with assms(4) show ?thesis
    unfolding list_all_iff by blast
qed

lemma selectEvents_nothing:
  assumes "\<And>e. \<not> c e" and "c \<in> set cs" and "ord [] = []"
  shows "selectEvents cs ord n w =
           ((if reachable (db w) then Inr [] else Inl StorageUnavailable),
            w\<lparr>reads := Suc (reads w)\<rparr>)"
proof -
  have "filter (\<lambda>e. list_all (\<lambda>c. c e) cs) (events (db w)) = []"
    using assms(1,2) unfolding list_all_iff filter_empty_conv by blast
  then show ?thesis
    by (simp add: selectEvents_def assms(3))
qed

lemma authorizationCondition_scoped:
  assumes "''*'' \<notin> set (authorizedServices ctx)"
  shows "authorizationCondition ctx = [\<lambda>e. row_serviceId e \<in> set (authorizedServices ctx)]"
  using assms by (simp add: authorizationCondition_def getAuthorizedServiceFilter_def)

lemma byRecency_set: "set (byRecency xs) = set xs"
  by (simp add: byRecency_def)

lemma byRecency_Nil: "byRecency [] = []"
  by (simp add: byRecency_def)

text \<open>Most recent first: down the list the time of occurrence never rises.\<close>

lemma negated_ascending:
  fixes ys :: "int list"
  shows "sorted (map uminus ys) \<Longrightarrow> sorted (rev ys)"
  by (induction ys) (auto simp: sorted_append)

lemma byRecency_descending: "sorted (rev (map row_occurredAt (byRecency xs)))"
proof -
  have "sorted (map (\<lambda>e. - row_occurredAt e) (byRecency xs))"
    by (simp add: byRecency_def)
  then have "sorted (map uminus (map row_occurredAt (byRecency xs)))"
    by (simp add: comp_def)
  then show ?thesis
    by (rule negated_ascending)
qed

section \<open>Both search modes stay inside the entitlement set\<close>

lemma keywordSearch_scoped:
  assumes "''*'' \<notin> set (authorizedServices ctx)"
    and "fst (keywordSearch env input ctx w) = Inr rs"
    and "r \<in> set rs"
  shows "serviceId r \<in> set (authorizedServices ctx)"
proof -
  from assms(2) obtain opt kw rows w' where
    sel: "selectEvents (authorizationCondition ctx @ opt @ [kw]) byRecency (input_limit input) w
            = (Inr rows, w')"
    and rs: "rs = map (toResult None) rows"
    by (auto simp: keywordSearch_def split: sum.splits prod.splits)
  from assms(3) rs obtain e where e: "e \<in> set rows" "r = toResult None e"
    by auto
  have "row_serviceId e \<in> set (authorizedServices ctx)"
    using selectEvents_rows[OF sel byRecency_set e(1),
        of "\<lambda>e. row_serviceId e \<in> set (authorizedServices ctx)"]
      authorizationCondition_scoped[OF assms(1)]
    by simp
  with e(2) show ?thesis
    by (simp add: toResult_def)
qed

lemma semanticSearch_scoped:
  assumes "''*'' \<notin> set (authorizedServices ctx)"
    and "fst (semanticSearch env input ctx w) = Inr rs"
    and "r \<in> set rs"
  shows "serviceId r \<in> set (authorizedServices ctx)"
proof -
  from assms(2) obtain opt q rows w' where
    sel: "selectEvents
            (authorizationCondition ctx @ opt @ [\<lambda>e. row_embedding e \<noteq> None])
            (sort_key (distanceTo env q)) (input_limit input) w = (Inr rows, w')"
    and rs: "rs = map (\<lambda>e. toResult (Some (1 - distanceTo env q e)) e) rows"
    by (auto simp: semanticSearch_def split: sum.splits prod.splits)
  from assms(3) rs obtain e where
    e: "e \<in> set rows" "r = toResult (Some (1 - distanceTo env q e)) e"
    by auto
  have "row_serviceId e \<in> set (authorizedServices ctx)"
    using selectEvents_rows[OF sel _ e(1),
        of "\<lambda>e. row_serviceId e \<in> set (authorizedServices ctx)"]
      authorizationCondition_scoped[OF assms(1)]
    by simp
  with e(2) show ?thesis
    by (simp add: toResult_def)
qed

lemma searchEvents_result:
  "fst (searchEvents env input ctx w) =
     (if input_useSemanticSearch input then fst (semanticSearch env input ctx w)
      else fst (keywordSearch env input ctx w))"
  by (simp add: searchEvents_def split: prod.splits sum.splits)

text \<open>
  Claim C1. For a caller context without the sentinel \<open>*\<close>, every record that similarity
  search returns belongs to a tenant of the context's entitlement set; the same holds of
  \<open>searchEvents\<close> in whichever mode the input selects, so the two modes exclude the same
  tenants.
\<close>

theorem similarity_search_scoped:
  assumes "''*'' \<notin> set (authorizedServices ctx)"
  shows "(fst (semanticSearch env input ctx w) = Inr rs \<longrightarrow>
            (\<forall>r\<in>set rs. serviceId r \<in> set (authorizedServices ctx)))
       \<and> (fst (searchEvents env input ctx w) = Inr rs' \<longrightarrow>
            (\<forall>r\<in>set rs'. serviceId r \<in> set (authorizedServices ctx)))"
  using assms semanticSearch_scoped keywordSearch_scoped
  by (auto simp: searchEvents_result split: if_splits)

text \<open>
  In the small deployment both tenants hold an event at distance 0 from the query; the
  caller scoped to the first tenant receives that tenant's event alone, in either mode.
\<close>

theorem similarity_search_scoped_witness:
  "''*'' \<notin> set (authorizedServices callerA)
   \<and> fst (semanticSearch demoEnv demoInput callerA demoWorld) = Inr [toResult (Some 1) eventA]
   \<and> fst (searchEvents demoEnv (demoInput\<lparr>input_useSemanticSearch := False\<rparr>) callerA demoWorld)
       = Inr [toResult None eventA]
   \<and> serviceId (toResult (Some 1) eventA) \<in> set (authorizedServices callerA)
   \<and> serviceId (toResult None eventA) \<in> set (authorizedServices callerA)
   \<and> row_serviceId eventB \<notin> set (authorizedServices callerA)"
proof -
  have star: "''*'' \<notin> set (authorizedServices callerA)"
    by (simp add: callerA_def)
  have sem: "fst (semanticSearch demoEnv demoInput callerA demoWorld)
               = Inr [toResult (Some 1) eventA]"
    by code_simp
  have "fst (keywordSearch demoEnv (demoInput\<lparr>input_useSemanticSearch := False\<rparr>) callerA
               demoWorld) = Inr [toResult None eventA]"
    by code_simp
  then have kw: "fst (searchEvents demoEnv (demoInput\<lparr>input_useSemanticSearch := False\<rparr>)
                        callerA demoWorld) = Inr [toResult None eventA]"
    by (simp add: searchEvents_result)
  have other: "row_serviceId eventB \<notin> set (authorizedServices callerA)"
    by (simp add: eventB_def callerA_def)
  from similarity_search_scoped[OF star, where env = demoEnv and input = demoInput
      and w = demoWorld and rs = "[toResult (Some 1) eventA]"] sem
  have a: "serviceId (toResult (Some 1) eventA) \<in> set (authorizedServices callerA)"
    by simp
  from similarity_search_scoped[OF star, where env = demoEnv
      and input = "demoInput\<lparr>input_useSemanticSearch := False\<rparr>"
      and w = demoWorld and rs' = "[toResult None eventA]"] kw
  have b: "serviceId (toResult None eventA) \<in> set (authorizedServices callerA)"
    by simp
  from star sem kw other a b show ?thesis
    by simp
qed

section \<open>The timeline is refused before storage is touched\<close>

text \<open>
  Claim C6. When the caller is not entitled to the tenant, \<open>getServiceTimeline\<close> returns the
  empty list and leaves storage and the read counter as they were, whatever state storage
  is in; it appends one audit entry that records the denial (reason \<open>unauthorized\<close>, zero
  events, the tenant asked for). A call that does issue a read was entitled.
\<close>

theorem timeline_denied_without_read:
  "(\<not> isAuthorizedForService ctx sid \<longrightarrow>
      getServiceTimeline env sid startDate endDate limit ctx w =
        (Inr [],
         w\<lparr>auditTrail := auditTrail w @
             [\<lparr>log_timestamp = toISOString (now w),
               log_level = INFO,
               log_action = ''event_access_get_timeline'',
               log_callerId = callerId ctx,
               log_callerName = callerName ctx,
               log_success = True,
               log_resourceType = Some ''event'',
               log_resourceId = None,
               log_serviceId = Some sid,
               log_message = Some ''Accessed 0 event(s)'',
               log_metadata = Some [(''reason'', JStr ''unauthorized'')]\<rparr>]\<rparr>))
   \<and> (reads (snd (getServiceTimeline env sid startDate endDate limit ctx w)) \<noteq> reads w \<longrightarrow>
        isAuthorizedForService ctx sid)"
proof (intro conjI impI)
  assume "\<not> isAuthorizedForService ctx sid"
  then have "\<not> admits (getAuthorizedServiceFilter ctx) sid"
    by (simp add: admits_filter)
  then show "getServiceTimeline env sid startDate endDate limit ctx w =
        (Inr [],
         w\<lparr>auditTrail := auditTrail w @
             [\<lparr>log_timestamp = toISOString (now w),
               log_level = INFO,
               log_action = ''event_access_get_timeline'',
               log_callerId = callerId ctx,
               log_callerName = callerName ctx,
               log_success = True,
               log_resourceType = Some ''event'',
               log_resourceId = None,
               log_serviceId = Some sid,
               log_message = Some ''Accessed 0 event(s)'',
               log_metadata = Some [(''reason'', JStr ''unauthorized'')]\<rparr>]\<rparr>)"
    by (simp add: getServiceTimeline_def auditEventAccess_def auditLog_def decimal.simps)
next
  assume changed: "reads (snd (getServiceTimeline env sid startDate endDate limit ctx w)) \<noteq> reads w"
  show "isAuthorizedForService ctx sid"
  proof (rule ccontr)
    assume "\<not> isAuthorizedForService ctx sid"
    then have "\<not> admits (getAuthorizedServiceFilter ctx) sid"
      by (simp add: admits_filter)
    then have "reads (snd (getServiceTimeline env sid startDate endDate limit ctx w)) = reads w"
      by (simp add: getServiceTimeline_def auditEventAccess_def auditLog_def)
    with changed show False
      by simp
  qed
qed

text \<open>
  With storage down, the caller scoped to the first tenant still gets the empty list for
  the second tenant; for its own tenant the read is issued (and fails there).
\<close>

theorem timeline_denied_without_read_witness:
  "\<not> isAuthorizedForService callerA ''svc-b''
   \<and> fst (getServiceTimeline demoEnv ''svc-b'' None None 5 callerA downWorld) = Inr []
   \<and> reads (snd (getServiceTimeline demoEnv ''svc-b'' None None 5 callerA downWorld)) = 0
   \<and> length (auditTrail (snd (getServiceTimeline demoEnv ''svc-b'' None None 5 callerA downWorld)))
       = 1
   \<and> reads (snd (getServiceTimeline demoEnv ''svc-a'' None None 5 callerA demoWorld)) = 1
   \<and> isAuthorizedForService callerA ''svc-a''"
proof -
  have denied: "\<not> isAuthorizedForService callerA ''svc-b''"
    by (simp add: isAuthorizedForService_def callerA_def)
  have issued: "reads (snd (getServiceTimeline demoEnv ''svc-a'' None None 5 callerA demoWorld)) = 1"
    by (simp add: getServiceTimeline_def timelineBound_def selectEvents_def auditEventAccess_def
        auditLog_def getAuthorizedServiceFilter_def callerA_def demoWorld_def)
  have zero: "reads demoWorld = 0" "reads downWorld = 0" "auditTrail downWorld = []"
    by (simp_all add: demoWorld_def downWorld_def)
  from timeline_denied_without_read[of callerA "''svc-b''" demoEnv None None 5 downWorld] denied
  have a: "fst (getServiceTimeline demoEnv ''svc-b'' None None 5 callerA downWorld) = Inr []"
    and b: "reads (snd (getServiceTimeline demoEnv ''svc-b'' None None 5 callerA downWorld)) = 0"
    and c: "length (auditTrail (snd (getServiceTimeline demoEnv ''svc-b'' None None 5 callerA
              downWorld))) = 1"
    by (simp_all add: zero)
  from timeline_denied_without_read[of callerA "''svc-a''" demoEnv None None 5 demoWorld] issued
  have d: "isAuthorizedForService callerA ''svc-a''"
    by (simp add: zero)
  from denied a b c issued d show ?thesis
    by simp
qed

section \<open>A record the caller may not see looks like a record that is not there\<close>

lemma getEventById_absent:
  assumes "\<forall>e\<in>set (events (db w)). row_id e \<noteq> eid"
  shows "fst (getEventById env eid ctx w) =
           (if reachable (db w) then Inr None else Inl StorageUnavailable)"
proof -
  have "find (\<lambda>e. row_id e = eid) (events (db w)) = None"
    using assms by (simp add: find_absent)
  then show ?thesis
    by (simp add: getEventById_def selectEvents_def take1_filter)
qed

lemma getEventById_unauthorized:
  assumes "find (\<lambda>e. row_id e = eid) (events (db w)) = Some ev"
    and "\<not> isAuthorizedForService ctx (row_serviceId ev)"
  shows "fst (getEventById env eid ctx w) =
           (if reachable (db w) then Inr None else Inl StorageUnavailable)"
  using assms
  by (simp add: getEventById_def selectEvents_def take1_filter admits_filter)

lemma getEventById_found:
  assumes "fst (getEventById env eid ctx w) = Inr (Some r)"
  shows "id' r = eid \<and> isAuthorizedForService ctx (serviceId r)"
proof -
  from assms obtain ev where
    "find (\<lambda>e. row_id e = eid) (events (db w)) = Some ev"
    "admits (getAuthorizedServiceFilter ctx) (row_serviceId ev)" "r = toResult None ev"
    by (auto simp: getEventById_def selectEvents_def take1_filter
        split: if_splits option.splits)
  then show ?thesis
    by (auto simp: toResult_def admits_filter dest: find_Some_iff[THEN iffD1])
qed

text \<open>
  Claim C4. Take a state in which no event has the identifier and a state in which the
  event fetched under it belongs to a tenant the caller is not entitled to. If storage
  answers in both or in neither, \<open>getEventById\<close> returns the same thing to the caller in
  both, and when storage answers that thing is \<open>null\<close>. The result type has no third
  outcome: a record is returned only when it carries the identifier and the caller is
  entitled to its tenant.
\<close>

theorem absent_and_forbidden_alike:
  assumes "\<forall>e\<in>set (events (db w1)). row_id e \<noteq> eid"
    and "find (\<lambda>e. row_id e = eid) (events (db w2)) = Some ev"
    and "\<not> isAuthorizedForService ctx (row_serviceId ev)"
    and "reachable (db w1) = reachable (db w2)"
  shows "fst (getEventById env eid ctx w1) = fst (getEventById env eid ctx w2)
       \<and> (reachable (db w1) \<longrightarrow> fst (getEventById env eid ctx w1) = Inr None)
       \<and> (\<forall>w r. fst (getEventById env eid ctx w) = Inr (Some r) \<longrightarrow>
             id' r = eid \<and> isAuthorizedForService ctx (serviceId r))"
  using getEventById_absent[OF assms(1)] getEventById_unauthorized[OF assms(2,3)]
    getEventById_found assms(4)
  by auto

text \<open>
  Before the second tenant's event exists and after, the caller scoped to the first tenant
  gets \<open>null\<close> for its identifier; its own tenant's event it does get.
\<close>

theorem absent_and_forbidden_alike_witness:
  "find (\<lambda>e. row_id e = ''e2'') (events (db earlierWorld)) = None
   \<and> find (\<lambda>e. row_id e = ''e2'') (events (db demoWorld)) = Some eventB
   \<and> \<not> isAuthorizedForService callerA (row_serviceId eventB)
   \<and> fst (getEventById demoEnv ''e2'' callerA earlierWorld)
       = fst (getEventById demoEnv ''e2'' callerA demoWorld)
   \<and> fst (getEventById demoEnv ''e2'' callerA earlierWorld) = Inr None
   \<and> fst (getEventById demoEnv ''e1'' callerA demoWorld) = Inr (Some (toResult None eventA))"
proof -
  have absent: "find (\<lambda>e. row_id e = ''e2'') (events (db earlierWorld)) = None"
    by (simp add: earlierWorld_def demoWorld_def eventA_def)
  have present: "find (\<lambda>e. row_id e = ''e2'') (events (db demoWorld)) = Some eventB"
    by (simp add: demoWorld_def eventA_def eventB_def)
  have denied: "\<not> isAuthorizedForService callerA (row_serviceId eventB)"
    by (simp add: isAuthorizedForService_def callerA_def eventB_def)
  have up: "reachable (db earlierWorld)" "reachable (db demoWorld)"
    by (simp_all add: earlierWorld_def demoWorld_def)
  have own: "fst (getEventById demoEnv ''e1'' callerA demoWorld)
               = Inr (Some (toResult None eventA))"
    by (simp add: getEventById_def selectEvents_def getAuthorizedServiceFilter_def callerA_def
        demoWorld_def eventA_def)
  from absent have none: "\<forall>e\<in>set (events (db earlierWorld)). row_id e \<noteq> ''e2''"
    by (simp add: find_absent)
  from absent_and_forbidden_alike[OF none present denied, of demoEnv] up
  have "fst (getEventById demoEnv ''e2'' callerA earlierWorld)
          = fst (getEventById demoEnv ''e2'' callerA demoWorld)"
    and "fst (getEventById demoEnv ''e2'' callerA earlierWorld) = Inr None"
    by blast+
  with absent present denied own show ?thesis
    by blast
qed

section \<open>Credentials that grant nothing\<close>

text \<open>
  Claim C7. When the call's metadata carries no usable \<^verbatim>\<open>authToken\<close> (none at all, or a
  falsy one) and no fallback credential is configured, \<open>resolveCallerContext\<close> returns the
  anonymous context and appends one authentication-failure entry with reason
  \<open>missing_token\<close>. Nothing else changes; in particular storage is not read, so the call
  cannot fail.
\<close>

theorem no_credential_is_anonymous:
  assumes "\<not> truthy (property (extractMetadata extra) ''authToken'')"
    and "PEI_AUTH_TOKEN w = None \<or> PEI_AUTH_TOKEN w = Some []"
  shows "resolveCallerContext env extra w =
     (Inr \<lparr>callerId = ''anonymous'', authorizedServices = [], callerName = None,
           callerType = Token\<rparr>,
      w\<lparr>auditTrail := auditTrail w @
          [\<lparr>log_timestamp = toISOString (now w),
            log_level = WARNING,
            log_action = ''authentication_failure'',
            log_callerId = ''anonymous'',
            log_callerName = None,
            log_success = False,
            log_resourceType = None,
            log_resourceId = None,
            log_serviceId = None,
            log_message = Some ''Authentication failed: missing_token'',
            log_metadata = None\<rparr>]\<rparr>)"
proof -
  from assms have "\<not> truthy (presentedToken extra w)"
    by (auto simp: presentedToken_def optJStr_def Let_def)
  then show ?thesis
    by (simp add: resolveCallerContext_def noAccess_def auditAuthFailure_def auditLog_def)
qed

text \<open>
  A call with empty metadata, one with no metadata and one whose argument is not an object
  all resolve to the anonymous caller, here with storage down.
\<close>

theorem no_credential_is_anonymous_witness:
  "\<not> truthy (property (extractMetadata (JObj [(''metadata'', JObj [])])) ''authToken'')
   \<and> PEI_AUTH_TOKEN downWorld = None
   \<and> fst (resolveCallerContext demoEnv (JObj [(''metadata'', JObj [])]) downWorld)
       = Inr callerNone
   \<and> map log_message
         (auditTrail (snd (resolveCallerContext demoEnv (JObj [(''metadata'', JObj [])]) downWorld)))
       = [Some ''Authentication failed: missing_token'']
   \<and> fst (resolveCallerContext demoEnv (JObj []) downWorld) = Inr callerNone
   \<and> fst (resolveCallerContext demoEnv JUndefined downWorld) = Inr callerNone"
proof -
  have none: "\<not> truthy (property (extractMetadata (JObj [(''metadata'', JObj [])])) ''authToken'')"
    "\<not> truthy (property (extractMetadata (JObj [])) ''authToken'')"
    "\<not> truthy (property (extractMetadata JUndefined) ''authToken'')"
    by (simp_all add: extractMetadata_def)
  have env: "PEI_AUTH_TOKEN downWorld = None" "auditTrail downWorld = []"
    by (simp_all add: downWorld_def demoWorld_def)
  note r = no_credential_is_anonymous[where w = downWorld and env = demoEnv, OF _ disjI1[OF env(1)]]
  from r[OF none(1)] r[OF none(2)] r[OF none(3)] none(1) env show ?thesis
    by (simp add: callerNone_def)
qed

section \<open>An expired credential keeps its identity and loses its entitlements\<close>

lemma selectToken_found:
  assumes "reachable (db w)"
    and "find (\<lambda>t. tok_tokenHash t = h) (apiTokens (db w)) = Some r"
  shows "selectToken h w = (Inr [r], w\<lparr>reads := Suc (reads w)\<rparr>)"
  using assms by (simp add: selectToken_def take1_filter)

lemma selectToken_unknown:
  assumes "reachable (db w)"
    and "\<forall>t\<in>set (apiTokens (db w)). tok_tokenHash t \<noteq> h"
  shows "selectToken h w = (Inr [], w\<lparr>reads := Suc (reads w)\<rparr>)"
proof -
  from assms(2) have "find (\<lambda>t. tok_tokenHash t = h) (apiTokens (db w)) = None"
    by (simp add: find_absent)
  with assms(1) show ?thesis
    by (simp add: selectToken_def take1_filter)
qed

text \<open>
  Claim C8. A presented credential whose stored record carries an \<^verbatim>\<open>expiresAt\<close> strictly
  before the time of resolution resolves to the record's own identifier with an empty
  entitlement set, whatever the record's set is. One authentication-failure entry with
  reason \<open>expired_token\<close> is appended; the record is read once and not written.
\<close>

theorem expired_credential_zeroed:
  assumes "presentedToken extra w = JStr token"
    and "token \<noteq> []"
    and "reachable (db w)"
    and "find (\<lambda>t. tok_tokenHash t = hashToken env token) (apiTokens (db w)) = Some r"
    and "tok_expiresAt r = Some expiresAt"
    and "expiresAt < now w"
  shows "resolveCallerContext env extra w =
     (Inr \<lparr>callerId = tok_id r, authorizedServices = [], callerName = None,
           callerType = Token\<rparr>,
      w\<lparr>reads := Suc (reads w),
        auditTrail := auditTrail w @
          [\<lparr>log_timestamp = toISOString (now w),
            log_level = WARNING,
            log_action = ''authentication_failure'',
            log_callerId = tok_id r,
            log_callerName = None,
            log_success = False,
            log_resourceType = None,
            log_resourceId = None,
            log_serviceId = None,
            log_message = Some ''Authentication failed: expired_token'',
            log_metadata =
              Some [(''name'', JStr (tok_name r)),
                    (''expiresAt'', JStr (toISOString expiresAt))]\<rparr>]\<rparr>)"
  using assms selectToken_found[OF assms(3,4)]
  by (simp add: resolveCallerContext_def noAccess_def auditAuthFailure_def auditLog_def)

text \<open>
  The expired administrative credential of the small deployment, whose record grants \<open>*\<close>,
  resolves to its identifier \<open>t2\<close> with no entitlement.
\<close>

theorem expired_credential_zeroed_witness:
  "presentedToken (bearer ''secret-old'') demoWorld = JStr ''secret-old''
   \<and> find (\<lambda>t. tok_tokenHash t = hashToken demoEnv ''secret-old'') (apiTokens (db demoWorld))
       = Some tokenOld
   \<and> tok_authorizedServices tokenOld = [''*'']
   \<and> tok_expiresAt tokenOld = Some 500
   \<and> 500 < now demoWorld
   \<and> fst (resolveCallerContext demoEnv (bearer ''secret-old'') demoWorld)
       = Inr \<lparr>callerId = ''t2'', authorizedServices = [], callerName = None,
               callerType = Token\<rparr>
   \<and> db (snd (resolveCallerContext demoEnv (bearer ''secret-old'') demoWorld)) = db demoWorld"
proof -
  have tok: "presentedToken (bearer ''secret-old'') demoWorld = JStr ''secret-old''"
    by (simp add: presentedToken_def bearer_def extractMetadata_def)
  have found: "find (\<lambda>t. tok_tokenHash t = hashToken demoEnv ''secret-old'')
                 (apiTokens (db demoWorld)) = Some tokenOld"
    by (simp add: hashToken_def demoEnv_def demoWorld_def tokenA_def tokenOld_def)
  have facts: "tok_authorizedServices tokenOld = [''*'']" "tok_expiresAt tokenOld = Some 500"
    "500 < now demoWorld" "reachable (db demoWorld)" "tok_id tokenOld = ''t2''"
    by (simp_all add: tokenOld_def demoWorld_def)
  from expired_credential_zeroed[OF tok _ facts(4) found facts(2,3)] tok found facts
  show ?thesis
    by simp
qed

section \<open>An unknown credential in the audit trail and in the pipeline\<close>

text \<open>
  Claim C10. A presented credential that matches no stored record resolves to the caller
  \<open>invalid\<close> with no entitlement, while the authentication-failure entry appended for it
  names the caller \<open>unknown\<close>; the entry's metadata is the single field \<open>tokenHash\<close> holding
  the SHA-256 digest of the credential, and no other field of the entry depends on the
  credential.
\<close>

theorem unknown_credential_sentinels:
  assumes "presentedToken extra w = JStr token"
    and "token \<noteq> []"
    and "reachable (db w)"
    and "\<forall>t\<in>set (apiTokens (db w)). tok_tokenHash t \<noteq> sha256hex env token"
  shows "resolveCallerContext env extra w =
     (Inr \<lparr>callerId = ''invalid'', authorizedServices = [], callerName = None,
           callerType = Token\<rparr>,
      w\<lparr>reads := Suc (reads w),
        auditTrail := auditTrail w @
          [\<lparr>log_timestamp = toISOString (now w),
            log_level = WARNING,
            log_action = ''authentication_failure'',
            log_callerId = ''unknown'',
            log_callerName = None,
            log_success = False,
            log_resourceType = None,
            log_resourceId = None,
            log_serviceId = None,
            log_message = Some ''Authentication failed: invalid_token'',
            log_metadata = Some [(''tokenHash'', JStr (sha256hex env token))]\<rparr>]\<rparr>)"
proof -
  from assms(4) have "\<forall>t\<in>set (apiTokens (db w)). tok_tokenHash t \<noteq> hashToken env token"
    by (simp add: hashToken_def)
  from selectToken_unknown[OF assms(3) this] assms(1,2) show ?thesis
    by (simp add: resolveCallerContext_def noAccess_def auditAuthFailure_def auditLog_def
        hashToken_def)
qed

text \<open>A credential nobody issued, presented to the small deployment.\<close>

theorem unknown_credential_sentinels_witness:
  "presentedToken (bearer ''guess'') demoWorld = JStr ''guess''
   \<and> map tok_tokenHash (apiTokens (db demoWorld)) = [''sha256:secret-a'', ''sha256:secret-old'']
   \<and> sha256hex demoEnv ''guess'' = ''sha256:guess''
   \<and> callerId (projr (fst (resolveCallerContext demoEnv (bearer ''guess'') demoWorld)))
       = ''invalid''
   \<and> map log_callerId
         (auditTrail (snd (resolveCallerContext demoEnv (bearer ''guess'') demoWorld)))
       = [''unknown'']
   \<and> map log_metadata
         (auditTrail (snd (resolveCallerContext demoEnv (bearer ''guess'') demoWorld)))
       = [Some [(''tokenHash'', JStr ''sha256:guess'')]]"
proof -
  have tok: "presentedToken (bearer ''guess'') demoWorld = JStr ''guess''"
    by (simp add: presentedToken_def bearer_def extractMetadata_def)
  have hashes: "map tok_tokenHash (apiTokens (db demoWorld))
                  = [''sha256:secret-a'', ''sha256:secret-old'']"
    by (simp add: demoWorld_def tokenA_def tokenOld_def)
  have digest: "sha256hex demoEnv ''guess'' = ''sha256:guess''"
    by (simp add: demoEnv_def)
  have up: "reachable (db demoWorld)" "auditTrail demoWorld = []"
    by (simp_all add: demoWorld_def)
  have unknown: "\<forall>t\<in>set (apiTokens (db demoWorld)). tok_tokenHash t \<noteq> sha256hex demoEnv ''guess''"
    by (simp add: demoWorld_def tokenA_def tokenOld_def demoEnv_def)
  from unknown_credential_sentinels[OF tok _ up(1) unknown] tok hashes digest up(2)
  show ?thesis
    by simp
qed

section \<open>The keyword match reads the query literally\<close>

lemma lowerChar_special:
  "lowerChar env c = backslash \<longleftrightarrow> c = backslash"
  "lowerChar env c = CHR ''%'' \<longleftrightarrow> c = CHR ''%''"
  "lowerChar env c = CHR ''_'' \<longleftrightarrow> c = CHR ''_''"
  by (auto simp: lowerChar_def marker_def Let_def)

lemma lower_append: "lower env (xs @ ys) = lower env xs @ lower env ys"
  by (simp add: lower_def)

lemma lowerChar_percent: "lowerChar env (CHR ''%'') = CHR ''%''"
  by (simp add: lowerChar_def marker_def)

text \<open>The three passes amount to escaping each character on its own.\<close>

lemma escapeLikePattern_chars: "escapeLikePattern q = concat (map escapeChar q)"
proof (induction q)
  case Nil
  show ?case
    by (simp add: escapeLikePattern_def replaceAll_def)
next
  case (Cons c q)
  then show ?case
    by (simp add: escapeLikePattern_def replaceAll_def escapeChar_def backslash_def)
qed

text \<open>An escaped query parses to its own characters, each a literal.\<close>

lemma parse_escaped:
  "parsePattern (lower env (escapeLikePattern q) @ rest) =
     map_option (\<lambda>ts. map Lit (lower env q) @ ts) (parsePattern rest)"
  unfolding escapeLikePattern_chars
proof (induction q)
  case Nil
  show ?case
    by (simp add: lower_def option.map_ident)
next
  case (Cons c q)
  then show ?case
    by (simp add: lower_def escapeChar_def lowerChar_special option.map_comp comp_def)
qed

lemma parse_wrapped:
  "parsePattern (lower env (CHR ''%'' # escapeLikePattern q @ ''%'')) =
     Some (AnySeq # map Lit (lower env q) @ [AnySeq])"
proof -
  have "parsePattern ''%'' = Some [AnySeq]"
    by (simp add: backslash_def)
  then have "parsePattern (lower env (escapeLikePattern q) @ ''%'')
               = Some (map Lit (lower env q) @ [AnySeq])"
    by (simp only: parse_escaped option.map)
  moreover have "lower env (CHR ''%'' # escapeLikePattern q @ ''%'')
                   = CHR ''%'' # (lower env (escapeLikePattern q) @ ''%'')"
    by (simp add: lower_def lowerChar_percent)
  ultimately show ?thesis
    by (simp add: backslash_def)
qed

lemma matches_literals:
  "matches (map Lit q @ ts) s \<longleftrightarrow> (\<exists>r. s = q @ r \<and> matches ts r)"
proof (induction q arbitrary: s)
  case Nil
  show ?case by simp
next
  case (Cons c q)
  then show ?case by (cases s) auto
qed

lemma matches_any_run:
  "matches (AnySeq # ts) s \<longleftrightarrow> (\<exists>a b. s = a @ b \<and> matches ts b)"
proof (induction s)
  case Nil
  show ?case by simp
next
  case (Cons c s)
  then show ?case by (auto simp: Cons_eq_append_conv)
qed

lemma matches_contains: "matches (AnySeq # map Lit q @ [AnySeq]) s \<longleftrightarrow> sublist q s"
  by (auto simp: matches_any_run matches_literals sublist_def)

lemma keywordCondition_escaped:
  "keywordCondition env (''%'' @ escapeLikePattern q @ ''%'') = Inr (mentions env q)"
proof -
  have "(\<lambda>e. matches (AnySeq # map Lit (lower env q) @ [AnySeq]) (lower env (row_title e))
              \<or> (case row_description e of
                    None \<Rightarrow> False
                  | Some d \<Rightarrow> matches (AnySeq # map Lit (lower env q) @ [AnySeq]) (lower env d)))
        = mentions env q"
    by (rule ext) (simp add: mentions_def containsIgnoringCase_def matches_contains
        split: option.splits)
  moreover have "''%'' @ escapeLikePattern q @ ''%'' = CHR ''%'' # escapeLikePattern q @ ''%''"
    by simp
  ultimately show ?thesis
    by (simp only: keywordCondition_def parse_wrapped option.case)
qed









section \<open>A caller without entitlements receives no records\<close>

lemma no_entitlement_condition:
  assumes "authorizedServices ctx = []"
  shows "authorizationCondition ctx = [\<lambda>e. False]"
  using assms by (simp add: authorizationCondition_def getAuthorizedServiceFilter_def)

lemma no_entitlement_select:
  assumes "authorizedServices ctx = []" and "ord [] = []"
  shows "selectEvents (authorizationCondition ctx @ cs) ord n w =
           ((if reachable (db w) then Inr [] else Inl StorageUnavailable),
            w\<lparr>reads := Suc (reads w)\<rparr>)"
  using selectEvents_nothing[of "\<lambda>e. False" "authorizationCondition ctx @ cs" ord n w]
    no_entitlement_condition[OF assms(1)] assms(2)
  by simp

lemma no_entitlement_keyword:
  assumes "authorizedServices ctx = []"
  shows "fst (keywordSearch env input ctx w) =
     (case optionalFilters env input of
        Inl e \<Rightarrow> Inl e
      | Inr optional \<Rightarrow> if reachable (db w) then Inr [] else Inl StorageUnavailable)"
proof -
  have "\<And>cs. selectEvents (authorizationCondition ctx @ cs) byRecency (input_limit input) w =
          ((if reachable (db w) then Inr [] else Inl StorageUnavailable),
           w\<lparr>reads := Suc (reads w)\<rparr>)"
    by (rule no_entitlement_select[OF assms]) (rule byRecency_Nil)
  then show ?thesis
    by (simp only: keywordSearch_def keywordCondition_escaped) (simp split: sum.splits)
qed

lemma no_entitlement_semantic:
  assumes "authorizedServices ctx = []"
  shows "fst (semanticSearch env input ctx w) =
     (case generateEmbedding env (input_query input) of
        Inl e \<Rightarrow> Inl e
      | Inr q \<Rightarrow>
          (case optionalFilters env input of
             Inl e \<Rightarrow> Inl e
           | Inr optional \<Rightarrow> if reachable (db w) then Inr [] else Inl StorageUnavailable))"
proof -
  have "\<And>q cs. selectEvents (authorizationCondition ctx @ cs) (sort_key (distanceTo env q))
                  (input_limit input) w =
          ((if reachable (db w) then Inr [] else Inl StorageUnavailable),
           w\<lparr>reads := Suc (reads w)\<rparr>)"
    by (rule no_entitlement_select[OF assms]) simp
  then show ?thesis
    by (simp add: semanticSearch_def split: sum.splits)
qed

lemma no_entitlement_event:
  assumes "authorizedServices ctx = []"
  shows "fst (getEventById env eid ctx w) =
           (if reachable (db w) then Inr None else Inl StorageUnavailable)"
proof (cases "find (\<lambda>e. row_id e = eid) (events (db w))")
  case None
  then have "\<forall>e\<in>set (events (db w)). row_id e \<noteq> eid"
    by (simp add: find_absent)
  then show ?thesis
    by (rule getEventById_absent)
next
  case (Some ev)
  moreover have "\<not> isAuthorizedForService ctx (row_serviceId ev)"
    using assms by (simp add: isAuthorizedForService_def)
  ultimately show ?thesis
    by (rule getEventById_unauthorized)
qed

text \<open>
  Claim C2, as the code has it. For a caller context with an empty entitlement set,
  \<open>isAuthorizedForService\<close> is false for every tenant; \<open>getServiceTimeline\<close> returns the empty
  list in every state; \<open>getEventById\<close> returns \<open>null\<close> whenever storage answers; and
  \<open>searchEvents\<close>, in either mode, returns the empty list whenever storage answers, the date
  filters parse and (in semantic mode) the query is embedded. No operation returns a
  record. What can still fail is a collaborator: its error is passed on, as it is for any
  caller.
\<close>

theorem no_entitlement_no_records:
  assumes "authorizedServices ctx = []"
  shows "\<not> isAuthorizedForService ctx t
       \<and> fst (getServiceTimeline env sid startDate endDate limit ctx w) = Inr []
       \<and> (reachable (db w) \<longrightarrow> fst (getEventById env eid ctx w) = Inr None)
       \<and> (\<forall>r. fst (getEventById env eid ctx w) \<noteq> Inr (Some r))
       \<and> (reachable (db w) \<and> (\<exists>cs. optionalFilters env input = Inr cs)
            \<and> (input_useSemanticSearch input \<longrightarrow>
                  (\<exists>q. generateEmbedding env (input_query input) = Inr q))
            \<longrightarrow> fst (searchEvents env input ctx w) = Inr [])
       \<and> (\<forall>rs. fst (searchEvents env input ctx w) = Inr rs \<longrightarrow> rs = [])"
proof -
  have denied: "\<And>s. \<not> isAuthorizedForService ctx s"
    using assms by (simp add: isAuthorizedForService_def)
  then have "\<not> admits (getAuthorizedServiceFilter ctx) sid"
    by (simp add: admits_filter)
  then have timeline: "fst (getServiceTimeline env sid startDate endDate limit ctx w) = Inr []"
    by (simp add: getServiceTimeline_def)
  have search: "fst (searchEvents env input ctx w) =
     (if input_useSemanticSearch input
      then (case generateEmbedding env (input_query input) of
              Inl e \<Rightarrow> Inl e
            | Inr q \<Rightarrow>
                (case optionalFilters env input of
                   Inl e \<Rightarrow> Inl e
                 | Inr optional \<Rightarrow>
                     if reachable (db w) then Inr [] else Inl StorageUnavailable))
      else (case optionalFilters env input of
              Inl e \<Rightarrow> Inl e
            | Inr optional \<Rightarrow> if reachable (db w) then Inr [] else Inl StorageUnavailable))"
    by (simp add: searchEvents_result no_entitlement_keyword[OF assms]
        no_entitlement_semantic[OF assms])
  have a: "reachable (db w) \<and> (\<exists>cs. optionalFilters env input = Inr cs)
            \<and> (input_useSemanticSearch input \<longrightarrow>
                  (\<exists>q. generateEmbedding env (input_query input) = Inr q))
            \<longrightarrow> fst (searchEvents env input ctx w) = Inr []"
    by (auto simp: search)
  have b: "\<forall>rs. fst (searchEvents env input ctx w) = Inr rs \<longrightarrow> rs = []"
    by (auto simp: search split: sum.splits if_splits)
  from denied timeline no_entitlement_event[OF assms, of env eid w] a b show ?thesis
    by simp
qed

text \<open>
  The anonymous caller against the small deployment: nothing in either search mode, nothing
  by identifier, nothing on a timeline.
\<close>

theorem no_entitlement_no_records_witness:
  "authorizedServices callerNone = []
   \<and> \<not> isAuthorizedForService callerNone ''svc-a''
   \<and> fst (getServiceTimeline demoEnv ''svc-a'' None None 5 callerNone demoWorld) = Inr []
   \<and> fst (getEventById demoEnv ''e1'' callerNone demoWorld) = Inr None
   \<and> fst (searchEvents demoEnv demoInput callerNone demoWorld) = Inr []
   \<and> fst (searchEvents demoEnv (demoInput\<lparr>input_useSemanticSearch := False\<rparr>) callerNone demoWorld)
       = Inr []"
proof -
  have empty: "authorizedServices callerNone = []"
    by (simp add: callerNone_def)
  have up: "reachable (db demoWorld)"
    by (simp add: demoWorld_def)
  have opt: "optionalFilters demoEnv demoInput = Inr []"
    "optionalFilters demoEnv (demoInput\<lparr>input_useSemanticSearch := False\<rparr>) = Inr []"
    by (simp_all add: optionalFilters_def dateFilter_def eqFilter_def demoInput_def)
  have emb: "generateEmbedding demoEnv (input_query demoInput) = Inr [1, 0]"
    by (simp add: demoEnv_def)
  from no_entitlement_no_records[OF empty, of "''svc-a''" demoEnv "''svc-a''" None None 5
      demoWorld "''e1''" demoInput] up opt(1) emb
  have a: "\<not> isAuthorizedForService callerNone ''svc-a''"
    "fst (getServiceTimeline demoEnv ''svc-a'' None None 5 callerNone demoWorld) = Inr []"
    "fst (getEventById demoEnv ''e1'' callerNone demoWorld) = Inr None"
    "fst (searchEvents demoEnv demoInput callerNone demoWorld) = Inr []"
    by simp_all
  from no_entitlement_no_records[OF empty, where env = demoEnv and w = demoWorld
      and input = "demoInput\<lparr>input_useSemanticSearch := False\<rparr>"] up opt(2)
  have b: "fst (searchEvents demoEnv (demoInput\<lparr>input_useSemanticSearch := False\<rparr>) callerNone
                  demoWorld) = Inr []"
    by simp
  from empty a b show ?thesis
    by simp
qed

text \<open>
  As stated (never an error) the claim fails where a collaborator fails: a date filter that
  does not parse, and storage that does not answer, reach the caller without entitlements
  as errors.
\<close>

theorem no_entitlement_error_counterexample:
  "authorizedServices callerNone = []
   \<and> newDate demoEnv ''yesterday'' = None
   \<and> fst (searchEvents demoEnv
            (demoInput\<lparr>input_useSemanticSearch := False, input_startDate := Some ''yesterday''\<rparr>)
            callerNone demoWorld) = Inl InvalidTimeValue
   \<and> fst (searchEvents demoEnv demoInput callerNone downWorld) = Inl StorageUnavailable
   \<and> fst (getEventById demoEnv ''e1'' callerNone downWorld) = Inl StorageUnavailable"
  unfolding searchEvents_result
  by (simp add: getEventById_def selectEvents_def downWorld_def demoWorld_def) code_simp

section \<open>What the earlier revision of similarity search returned\<close>

text \<open>
  The earlier revision answers every caller as the present one answers a caller entitled
  to everything; in the small deployment the caller scoped to the first tenant received the
  second tenant's event too.
\<close>

lemma semanticSearch_earlier_universal:
  "semanticSearch_earlier env input ctx w =
     semanticSearch env input (ctx\<lparr>authorizedServices := [''*'']\<rparr>) w"
proof -
  have "authorizationCondition (ctx\<lparr>authorizedServices := [''*'']\<rparr>) = []"
    by (simp add: authorizationCondition_def getAuthorizedServiceFilter_def)
  then show ?thesis
    by (simp add: semanticSearch_earlier_def semanticSearch_def split: sum.splits)
qed

lemma semanticSearch_earlier_leaks:
  "fst (semanticSearch_earlier demoEnv demoInput callerA demoWorld)
     = Inr [toResult (Some 1) eventA, toResult (Some 1) eventB]
   \<and> serviceId (toResult (Some 1) eventB) \<notin> set (authorizedServices callerA)"
  by code_simp

section \<open>A date-time string reads back as the time it renders\<close>

text \<open>
  Each year adds its own number of days to \<open>DayFromYear\<close>, so the search for the year
  stops at the year that holds the day; from there the day within the year, the month and
  the date are in range, and the string produced for a time in the years 0 to 9999 parses
  back to that time.
\<close>

lemma div_step:
  fixes a d :: int
  assumes "0 < d"
  shows "(a + 1) div d - a div d = (if (a + 1) mod d = 0 then 1 else 0)"
proof (cases "(a + 1) mod d = 0")
  case True
  then obtain k where k: "a + 1 = d * k"
    by (auto simp: mod_eq_0_iff_dvd)
  then have a: "a = d * (k - 1) + (d - 1)"
    by (simp add: algebra_simps)
  have "a div d = k - 1"
    by (subst a) (use assms in \<open>simp add: div_pos_pos_trivial\<close>)
  moreover have "(a + 1) div d = k"
    using k assms by simp
  ultimately show ?thesis
    using True by simp
next
  case False
  define q where "q = a div d"
  define r where "r = a mod d"
  have a: "a = d * q + r"
    by (simp add: q_def r_def)
  have r: "0 \<le> r" "r < d"
    using assms by (simp_all add: r_def)
  have "r + 1 \<noteq> d"
  proof
    assume "r + 1 = d"
    then have "a + 1 = d * (q + 1)"
      using a by (simp add: algebra_simps)
    then have "(a + 1) mod d = 0"
      by simp
    with False show False
      by simp
  qed
  with r have r1: "0 \<le> r + 1" "r + 1 < d"
    by simp_all
  have "(a + 1) div d = (d * q + (r + 1)) div d"
    using a by (simp add: algebra_simps)
  also have "\<dots> = q"
    using r1 assms by (simp add: div_pos_pos_trivial)
  finally show ?thesis
    using False by (simp add: q_def)
qed

lemma div_step_shift:
  fixes y c d :: int
  assumes "0 < d" and "d dvd c"
  shows "(y + 1 - (c + 1)) div d = (y - (c + 1)) div d + (if y mod d = 0 then 1 else 0)"
proof -
  have "(y - c) mod d = y mod d"
    using assms(2) by (metis dvd_eq_mod_eq_0 diff_zero mod_diff_right_eq)
  with div_step[OF assms(1), of "y - (c + 1)"] show ?thesis
    by (simp add: algebra_simps)
qed

lemma leap_rule:
  fixes y :: int
  shows "(if y mod 4 = 0 then 1 else 0) - (if y mod 100 = 0 then 1 else 0)
           + (if y mod 400 = 0 then 1 else (0::int))
         = DaysInYear y - 365"
proof -
  have "y mod 4 = 0" if "y mod 100 = 0"
  proof -
    from that have "100 dvd y"
      by (simp only: mod_eq_0_iff_dvd)
    then have "4 dvd y"
      by (rule dvd_trans[rotated]) simp
    then show ?thesis
      by (simp only: mod_eq_0_iff_dvd)
  qed
  moreover have "y mod 100 = 0" if "y mod 400 = 0"
  proof -
    from that have "400 dvd y"
      by (simp only: mod_eq_0_iff_dvd)
    then have "100 dvd y"
      by (rule dvd_trans[rotated]) simp
    then show ?thesis
      by (simp only: mod_eq_0_iff_dvd)
  qed
  ultimately show ?thesis
    by (cases "y mod 4 = 0"; cases "y mod 100 = 0"; cases "y mod 400 = 0")
      (simp_all add: DaysInYear_def)
qed

lemma DayFromYear_step: "DayFromYear (y + 1) = DayFromYear y + DaysInYear y"
proof -
  have sum: "\<And>a b c a' b' c' l :: int. a' = a + (if y mod 4 = 0 then 1 else 0) \<Longrightarrow>
         b' = b + (if y mod 100 = 0 then 1 else 0) \<Longrightarrow>
         c' = c + (if y mod 400 = 0 then 1 else 0) \<Longrightarrow>
         (if y mod 4 = 0 then 1 else 0) - (if y mod 100 = 0 then 1 else 0)
           + (if y mod 400 = 0 then 1 else (0::int)) = l - 365 \<Longrightarrow>
         365 * (y + 1 - 1970) + a' - b' + c' = 365 * (y - 1970) + a - b + c + l"
    by (simp add: algebra_simps)
  have f4: "(y + 1 - 1969) div 4 = (y - 1969) div 4 + (if y mod 4 = 0 then 1 else 0)"
    using div_step_shift[of 4 1968 y] by simp
  have f100: "(y + 1 - 1901) div 100 = (y - 1901) div 100 + (if y mod 100 = 0 then 1 else 0)"
    using div_step_shift[of 100 1900 y] by simp
  have f400: "(y + 1 - 1601) div 400 = (y - 1601) div 400 + (if y mod 400 = 0 then 1 else 0)"
    using div_step_shift[of 400 1600 y] by simp
  show ?thesis
    unfolding DayFromYear_def by (rule sum[OF f4 f100 f400 leap_rule])
qed

lemma DaysInYear_range: "365 \<le> DaysInYear y" "DaysInYear y \<le> 366"
  by (simp_all add: DaysInYear_def)

lemma yearUp_spec:
  "DayFromYear y \<le> d \<Longrightarrow>
     y \<le> yearUp d y \<and> DayFromYear (yearUp d y) \<le> d \<and> d < DayFromYear (yearUp d y + 1)"
proof (induction d y rule: yearUp.induct)
  case (1 d y)
  show ?case
  proof (cases "DayFromYear (y + 1) \<le> d")
    case True
    with 1 show ?thesis
      by (subst (1 2 3) yearUp.simps) auto
  next
    case False
    with 1 show ?thesis
      by (subst (1 2 3) yearUp.simps) auto
  qed
qed

lemma yearDown_spec:
  "d < DayFromYear (y + 1) \<Longrightarrow>
     yearDown d y \<le> y \<and> DayFromYear (yearDown d y) \<le> d \<and> d < DayFromYear (yearDown d y + 1)"
proof (induction d y rule: yearDown.induct)
  case (1 d y)
  show ?case
  proof (cases "d < DayFromYear y")
    case True
    with 1 show ?thesis
      by (subst (1 2 3) yearDown.simps) auto
  next
    case False
    with 1 show ?thesis
      by (subst (1 2 3) yearDown.simps) auto
  qed
qed

lemma DayFromYear_1970: "DayFromYear 1970 = 0"
  by (simp add: DayFromYear_def)

lemma DayFromYear_upper: "1970 \<le> y \<Longrightarrow> DayFromYear y \<le> 366 * (y - 1970)"
proof (induction y rule: int_ge_induct)
  case base
  show ?case
    by (simp add: DayFromYear_1970)
next
  case (step i)
  then show ?case
    using DayFromYear_step[of i] DaysInYear_range(2)[of i] by simp
qed

lemma DayFromYear_lower: "y \<le> 1970 \<Longrightarrow> 366 * (y - 1970) \<le> DayFromYear y"
proof (induction y rule: int_le_induct)
  case base
  show ?case
    by (simp add: DayFromYear_1970)
next
  case (step i)
  then show ?case
    using DayFromYear_step[of "i - 1"] DaysInYear_range(2)[of "i - 1"] by simp
qed

lemma DayFromYear_mono: "y \<le> y' \<Longrightarrow> DayFromYear y \<le> DayFromYear y'"
proof (induction y' rule: int_ge_induct)
  case base
  show ?case
    by simp
next
  case (step i)
  then show ?case
    using DayFromYear_step[of i] DaysInYear_range(1)[of i] by simp
qed

lemma estimate_below:
  fixes d :: int
  assumes "0 \<le> d"
  shows "1970 \<le> 1970 + d div 366 \<and> DayFromYear (1970 + d div 366) \<le> d"
proof -
  define q where "q = d div 366"
  have q: "0 \<le> q" "366 * q \<le> d"
    using assms mult_div_mod_eq[of 366 d] pos_mod_sign[of 366 d]
    by (simp_all add: q_def pos_imp_zdiv_nonneg_iff)
  from DayFromYear_upper[of "1970 + q"] q show ?thesis
    unfolding q_def[symmetric] by simp
qed

lemma estimate_above:
  fixes d :: int
  assumes "d < 0"
  shows "d < DayFromYear (1970 + d div 366 + 1)"
proof -
  define q where "q = d div 366"
  have q: "q < 0" "d < 366 * (q + 1)"
    using assms mult_div_mod_eq[of 366 d] pos_mod_bound[of 366 d]
    by (simp_all add: q_def div_neg_pos_less0)
  from DayFromYear_lower[of "1970 + q + 1"] q show ?thesis
    unfolding q_def[symmetric] by simp
qed

lemma YearFromTime_spec:
  "DayFromYear (YearFromTime t) \<le> Day t \<and> Day t < DayFromYear (YearFromTime t + 1)"
proof (cases "0 \<le> Day t")
  case True
  from yearUp_spec[of "1970 + Day t div 366" "Day t"] estimate_below[OF True] True
  show ?thesis
    by (simp add: YearFromTime_def Let_def)
next
  case False
  then have "Day t < 0"
    by simp
  from yearDown_spec[of "Day t" "1970 + Day t div 366"] estimate_above[OF this] False
  show ?thesis
    by (simp add: YearFromTime_def Let_def)
qed

lemma YearFromTime_range:
  assumes "- 62167219200000 \<le> t" and "t < 253402300800000"
  shows "0 \<le> YearFromTime t \<and> YearFromTime t \<le> 9999"
proof -
  have "(- 62167219200000) div 86400000 \<le> t div 86400000"
    using assms(1) by (rule zdiv_mono1) simp
  then have first: "- 719528 \<le> Day t"
    by (simp add: Day_def msPerDay_def)
  have last: "Day t < 2932897"
    using assms(2) by (simp add: Day_def msPerDay_def div_less_iff_less_mult)
  have "0 \<le> YearFromTime t"
  proof (rule ccontr)
    assume "\<not> 0 \<le> YearFromTime t"
    then have "DayFromYear (YearFromTime t + 1) \<le> DayFromYear 0"
      by (simp add: DayFromYear_mono)
    moreover have "DayFromYear 0 = - 719528"
      by (simp add: DayFromYear_def)
    ultimately show False
      using YearFromTime_spec[of t] first by simp
  qed
  moreover have "YearFromTime t < 10000"
  proof (rule ccontr)
    assume "\<not> YearFromTime t < 10000"
    then have "DayFromYear 10000 \<le> DayFromYear (YearFromTime t)"
      by (simp add: DayFromYear_mono)
    moreover have "DayFromYear 10000 = 2932897"
      by (simp add: DayFromYear_def)
    ultimately show False
      using YearFromTime_spec[of t] last by simp
  qed
  ultimately show ?thesis
    by simp
qed

lemma DayWithinYear_range: "0 \<le> DayWithinYear t \<and> DayWithinYear t < 365 + InLeapYear t"
proof -
  have "DaysInYear (YearFromTime t) = 365 + InLeapYear t"
    using DaysInYear_range[of "YearFromTime t"]
    by (simp add: InLeapYear_def)
  with YearFromTime_spec[of t] DayFromYear_step[of "YearFromTime t"] show ?thesis
    by (simp add: DayWithinYear_def)
qed

lemma InLeapYear_range: "InLeapYear t = 0 \<or> InLeapYear t = 1"
  by (simp add: InLeapYear_def)

lemma MonthFromTime_range: "0 \<le> MonthFromTime t \<and> MonthFromTime t \<le> 11"
  by (simp add: MonthFromTime_def Let_def)

lemma DateFromTime_range: "1 \<le> DateFromTime t \<and> DateFromTime t \<le> 31"
  using DayWithinYear_range[of t] InLeapYear_range[of t]
  by (auto simp: DateFromTime_def MonthFromTime_def monthStart_def Let_def)

lemma time_fields:
  "t = msPerDay * Day t + HourFromTime t * 3600000 + MinFromTime t * 60000
         + SecFromTime t * 1000 + msFromTime t"
proof -
  define a1 where "a1 = t div 1000"
  define a2 where "a2 = a1 div 60"
  define a3 where "a3 = a2 div 60"
  define a4 where "a4 = a3 div 24"
  define r0 where "r0 = t mod 1000"
  define r1 where "r1 = a1 mod 60"
  define r2 where "r2 = a2 mod 60"
  define r3 where "r3 = a3 mod 24"
  have d2: "t div 60000 = a2"
    unfolding a2_def a1_def using zdiv_zmult2_eq[of 60 t 1000] by simp
  have d3: "t div 3600000 = a3"
    unfolding a3_def d2[symmetric] using zdiv_zmult2_eq[of 60 t 60000] by simp
  have d4: "t div 86400000 = a4"
    unfolding a4_def d3[symmetric] using zdiv_zmult2_eq[of 24 t 3600000] by simp
  have e0: "t = 1000 * a1 + r0"
    unfolding a1_def r0_def by (rule mult_div_mod_eq[symmetric])
  have e1: "a1 = 60 * a2 + r1"
    unfolding a2_def r1_def by (rule mult_div_mod_eq[symmetric])
  have e2: "a2 = 60 * a3 + r2"
    unfolding a3_def r2_def by (rule mult_div_mod_eq[symmetric])
  have e3: "a3 = 24 * a4 + r3"
    unfolding a4_def r3_def by (rule mult_div_mod_eq[symmetric])
  from e0 e1 e2 e3 have "t = 86400000 * a4 + r3 * 3600000 + r2 * 60000 + r1 * 1000 + r0"
    by linarith
  then show ?thesis
    unfolding msPerDay_def Day_def HourFromTime_def MinFromTime_def SecFromTime_def
      msFromTime_def d2 d3 d4 a1_def[symmetric] r0_def[symmetric] r1_def[symmetric]
      r2_def[symmetric] r3_def[symmetric] .
qed

lemma clock_fields:
  "0 \<le> HourFromTime t \<and> HourFromTime t \<le> 23 \<and> 0 \<le> MinFromTime t \<and> MinFromTime t \<le> 59
   \<and> 0 \<le> SecFromTime t \<and> SecFromTime t \<le> 59 \<and> 0 \<le> msFromTime t \<and> msFromTime t \<le> 999"
proof -
  have "\<And>a d :: int. 0 < d \<Longrightarrow> 0 \<le> a mod d \<and> a mod d \<le> d - 1"
    using pos_mod_bound pos_mod_sign by (simp add: zle_diff1_eq)
  from this[of 24 "t div 3600000"] this[of 60 "t div 60000"] this[of 60 "t div 1000"]
    this[of 1000 t]
  show ?thesis
    unfolding HourFromTime_def MinFromTime_def SecFromTime_def msFromTime_def
    by (simp del: pos_mod_sign pos_mod_bound)
qed

lemma digitOf_digit: "0 \<le> n \<Longrightarrow> n < 10 \<Longrightarrow> digitOf (''0123456789'' ! nat n) = Some n"
proof -
  assume "0 \<le> n" "n < 10"
  then have "n \<in> {0, 1, 2, 3, 4, 5, 6, 7, 8, 9}"
    by simp presburger
  then show ?thesis
    by (auto simp: digitOf_def)
qed

lemma digitOf_zero: "digitOf (CHR ''0'') = Some 0"
  by (simp add: digitOf_def)

lemma readDigits_append:
  "readDigits acc (xs @ ys) =
     (case readDigits acc xs of None \<Rightarrow> None | Some a \<Rightarrow> readDigits a ys)"
  by (induction xs arbitrary: acc) (simp_all split: option.splits)

lemma readDigits_decimal: "0 \<le> n \<Longrightarrow> readDigits 0 (decimal n) = Some n"
proof (induction n rule: decimal.induct)
  case (1 n)
  show ?case
  proof (cases "n < 10")
    case True
    with 1(2) show ?thesis
      by (subst decimal.simps) (simp add: digitOf_digit)
  next
    case False
    then have "0 \<le> n div 10"
      by (simp add: pos_imp_zdiv_nonneg_iff)
    with 1(1) False have "readDigits 0 (decimal (n div 10)) = Some (n div 10)"
      by simp
    moreover have "0 \<le> n mod 10" "n mod 10 < 10"
      by simp_all
    ultimately show ?thesis
      using False by (subst decimal.simps) (simp add: readDigits_append digitOf_digit)
  qed
qed

lemma readDigits_zeros: "readDigits 0 (replicate k (CHR ''0'')) = Some 0"
  by (induction k) (simp_all add: digitOf_zero)

lemma readDigits_zeroPad: "0 \<le> n \<Longrightarrow> readDigits 0 (zeroPad k n) = Some n"
  by (simp add: zeroPad_def readDigits_append readDigits_zeros readDigits_decimal)

lemma length_decimal: "n < 10 ^ k \<Longrightarrow> 0 < k \<Longrightarrow> length (decimal n) \<le> k"
proof (induction n arbitrary: k rule: decimal.induct)
  case (1 n)
  show ?case
  proof (cases "n < 10")
    case True
    with 1(3) show ?thesis
      by (subst decimal.simps) simp
  next
    case False
    from 1(3) obtain j where k: "k = Suc j"
      by (cases k) auto
    with False 1(2) have "0 < j"
      by (cases j) auto
    moreover from 1(2) k have "n div 10 < 10 ^ j"
      by (simp add: div_less_iff_less_mult mult.commute)
    ultimately have "length (decimal (n div 10)) \<le> j"
      using 1(1) False by simp
    with False k show ?thesis
      by (subst decimal.simps) simp
  qed
qed

lemma length_zeroPad: "n < 10 ^ k \<Longrightarrow> 0 < k \<Longrightarrow> length (zeroPad k n) = k"
  using length_decimal[of n k] by (simp add: zeroPad_def)

lemma parse_toISOString:
  assumes "0 \<le> YearFromTime t" and "YearFromTime t \<le> 9999"
  shows "parseISO (toISOString t) = Some t"
proof -
  define Y where "Y = zeroPad 4 (YearFromTime t)"
  define Mo where "Mo = zeroPad 2 (MonthFromTime t + 1)"
  define D where "D = zeroPad 2 (DateFromTime t)"
  define H where "H = zeroPad 2 (HourFromTime t)"
  define Mi where "Mi = zeroPad 2 (MinFromTime t)"
  define S where "S = zeroPad 2 (SecFromTime t)"
  define Ms where "Ms = zeroPad 3 (msFromTime t)"
  note defs = Y_def Mo_def D_def H_def Mi_def S_def Ms_def
  note ranges = MonthFromTime_range[of t] DateFromTime_range[of t] clock_fields[of t]
  have len: "length Y = 4" "length Mo = 2" "length D = 2" "length H = 2" "length Mi = 2"
    "length S = 2" "length Ms = 3"
    using assms ranges unfolding defs by (simp_all add: length_zeroPad)
  have rd: "readDigits 0 Y = Some (YearFromTime t)" "readDigits 0 Mo = Some (MonthFromTime t + 1)"
    "readDigits 0 D = Some (DateFromTime t)" "readDigits 0 H = Some (HourFromTime t)"
    "readDigits 0 Mi = Some (MinFromTime t)" "readDigits 0 S = Some (SecFromTime t)"
    "readDigits 0 Ms = Some (msFromTime t)"
    using assms ranges unfolding defs by (simp_all add: readDigits_zeroPad)
  have s: "toISOString t
             = Y @ ''-'' @ Mo @ ''-'' @ D @ ''T'' @ H @ '':'' @ Mi @ '':'' @ S @ ''.'' @ Ms @ ''Z''"
    using assms by (simp add: toISOString_def yearString_def defs)
  have day: "DayFromYear (YearFromTime t) + monthStart (InLeapYear t) (MonthFromTime t)
               + (DateFromTime t - 1) = Day t"
    by (simp add: DateFromTime_def DayWithinYear_def)
  have shape: "parseISO (toISOString t) =
      Some (msPerDay * (DayFromYear (YearFromTime t)
                        + monthStart (InLeapYear t) (MonthFromTime t) + (DateFromTime t - 1))
            + HourFromTime t * 3600000 + MinFromTime t * 60000 + SecFromTime t * 1000
            + msFromTime t)"
    unfolding s parseISO_def using ranges
    by (simp add: len rd nth_append InLeapYear_def)
  show ?thesis
    unfolding shape day using time_fields[of t] by simp
qed

lemma timestamp_parses:
  assumes "- 62167219200000 \<le> t" and "t < 253402300800000"
  shows "parseISO (toISOString t) = Some t"
  using YearFromTime_range[OF assms] by (intro parse_toISOString) simp_all

section \<open>What each call adds to the audit trail\<close>

lemma auditEventAccess_trail:
  "auditTrail (auditEventAccess cid cname action n sid metadata w) =
     auditTrail w @
       [\<lparr>log_timestamp = toISOString (now w),
         log_level = INFO,
         log_action = ''event_access_'' @ actionName action,
         log_callerId = cid,
         log_callerName = cname,
         log_success = True,
         log_resourceType = Some ''event'',
         log_resourceId = None,
         log_serviceId = sid,
         log_message = Some (''Accessed '' @ decimal (int n) @ '' event(s)''),
         log_metadata = metadata\<rparr>]"
  by (simp add: auditEventAccess_def auditLog_def)

lemma auditEventAccess_now: "now (auditEventAccess cid cname action n sid metadata w) = now w"
  by (simp add: auditEventAccess_def auditLog_def)

lemma selectEvents_trail:
  "selectEvents cs ord n w = (r, w') \<Longrightarrow> auditTrail w' = auditTrail w \<and> now w' = now w"
  by (auto simp: selectEvents_def)

lemma searchEvents_audit:
  assumes "- 62167219200000 \<le> now w" and "now w < 253402300800000"
  shows "case searchEvents env input ctx w of
     (Inl e, w') \<Rightarrow> auditTrail w' = auditTrail w
   | (Inr rs, w') \<Rightarrow>
       (\<exists>entry. auditTrail w' = auditTrail w @ [entry]
                \<and> accessEntry w search (length rs) entry)"
proof -
  have kw: "\<And>r w'. keywordSearch env input ctx w = (r, w') \<Longrightarrow>
              auditTrail w' = auditTrail w \<and> now w' = now w"
    by (auto simp: keywordSearch_def split: sum.splits prod.splits dest: selectEvents_trail)
  have sem: "\<And>r w'. semanticSearch env input ctx w = (r, w') \<Longrightarrow>
              auditTrail w' = auditTrail w \<and> now w' = now w"
    by (auto simp: semanticSearch_def split: sum.splits prod.splits dest: selectEvents_trail)
  show ?thesis
    by (auto simp: searchEvents_def auditEventAccess_trail accessEntry_def
        timestamp_parses[OF assms]
        split: sum.splits prod.splits if_splits dest!: kw sem)
qed

lemma getEventById_audit:
  assumes "- 62167219200000 \<le> now w" and "now w < 253402300800000"
  shows "case getEventById env eid ctx w of
     (Inl e, w') \<Rightarrow> auditTrail w' = auditTrail w
   | (Inr r, w') \<Rightarrow>
       (\<exists>entry. auditTrail w' = auditTrail w @ [entry]
                \<and> accessEntry w get_details (case r of None \<Rightarrow> 0 | Some x \<Rightarrow> 1) entry)"
  by (auto simp: getEventById_def auditEventAccess_trail accessEntry_def
      timestamp_parses[OF assms]
      split: sum.splits prod.splits list.splits if_splits dest!: selectEvents_trail)

lemma getServiceTimeline_audit:
  assumes "- 62167219200000 \<le> now w" and "now w < 253402300800000"
  shows "case getServiceTimeline env sid startDate endDate limit ctx w of
     (Inl e, w') \<Rightarrow> auditTrail w' = auditTrail w
   | (Inr rs, w') \<Rightarrow>
       (\<exists>entry. auditTrail w' = auditTrail w @ [entry] \<and> now w' = now w
                \<and> accessEntry w get_timeline (length rs) entry)"
  by (auto simp: getServiceTimeline_def auditEventAccess_trail auditEventAccess_now accessEntry_def
      timestamp_parses[OF assms]
      split: sum.splits prod.splits if_splits dest!: selectEvents_trail)

lemma generateImpactSummary_audit:
  assumes "- 62167219200000 \<le> now w" and "now w < 253402300800000"
  shows "case generateImpactSummary env sinput ctx w of
     (Inl e, w') \<Rightarrow> auditTrail w' = auditTrail w
   | (Inr s, w') \<Rightarrow>
       (\<exists>n first second. auditTrail w' = auditTrail w @ [first, second]
                \<and> accessEntry w get_timeline n first
                \<and> accessEntry w get_impact_summary n second)"
proof -
  obtain r w1 where timeline:
    "getServiceTimeline env (sum_serviceId sinput) (toDate env (sum_startDate sinput))
       (toDate env (sum_endDate sinput)) (sum_maxEvents sinput) ctx w = (r, w1)"
    by (cases "getServiceTimeline env (sum_serviceId sinput) (toDate env (sum_startDate sinput))
       (toDate env (sum_endDate sinput)) (sum_maxEvents sinput) ctx w")
  note first_entry = getServiceTimeline_audit[OF assms, where env = env
      and sid = "sum_serviceId sinput" and startDate = "toDate env (sum_startDate sinput)"
      and endDate = "toDate env (sum_endDate sinput)" and limit = "sum_maxEvents sinput"
      and ctx = ctx]
  show ?thesis
  proof (cases r)
    case (Inl e)
    with timeline first_entry show ?thesis
      by (simp add: generateImpactSummary_def)
  next
    case (Inr rs)
    with timeline first_entry
    obtain first where first: "auditTrail w1 = auditTrail w @ [first]" "now w1 = now w"
      "accessEntry w get_timeline (length rs) first"
      by auto
    obtain s metadata where summary:
      "generateImpactSummary env sinput ctx w =
         (Inr s, auditEventAccess (callerId ctx) (callerName ctx) get_impact_summary
                   (length rs) (Some (sum_serviceId sinput)) metadata w1)"
      using timeline Inr by (cases rs) (simp_all add: generateImpactSummary_def)
    have "accessEntry w get_impact_summary (length rs)
            (last (auditTrail (auditEventAccess (callerId ctx) (callerName ctx)
               get_impact_summary (length rs) (Some (sum_serviceId sinput)) metadata w1)))"
      by (simp add: auditEventAccess_trail accessEntry_def first(2) timestamp_parses[OF assms])
    with first summary show ?thesis
      by (auto simp: auditEventAccess_trail)
  qed
qed

text \<open>
  Claim C5, as the code has it. While the clock reads a time in the years 0 to 9999 (where
  the date-time string has a four-digit year): a call to \<open>searchEvents\<close>, \<open>getEventById\<close> or
  \<open>getServiceTimeline\<close> that returns appends exactly one entry to the audit trail, written by
  \<open>auditEventAccess\<close> with the number of records returned and a timestamp that parses as
  ISO-8601 to the time of the call; a call to \<open>generateImpactSummary\<close> that returns appends
  exactly two, the timeline's entry and then its own; a call that fails appends none.
  Entries already in the trail are never changed.
\<close>

theorem audit_entries_per_call:
  assumes "- 62167219200000 \<le> now w" and "now w < 253402300800000"
  shows "(case searchEvents env input ctx w of
      (Inl e, w') \<Rightarrow> auditTrail w' = auditTrail w
    | (Inr rs, w') \<Rightarrow>
        (\<exists>entry. auditTrail w' = auditTrail w @ [entry]
                 \<and> accessEntry w search (length rs) entry))
   \<and> (case getEventById env eid ctx w of
      (Inl e, w') \<Rightarrow> auditTrail w' = auditTrail w
    | (Inr r, w') \<Rightarrow>
        (\<exists>entry. auditTrail w' = auditTrail w @ [entry]
                 \<and> accessEntry w get_details (case r of None \<Rightarrow> 0 | Some x \<Rightarrow> 1) entry))
   \<and> (case getServiceTimeline env sid startDate endDate limit ctx w of
      (Inl e, w') \<Rightarrow> auditTrail w' = auditTrail w
    | (Inr rs, w') \<Rightarrow>
        (\<exists>entry. auditTrail w' = auditTrail w @ [entry]
                 \<and> accessEntry w get_timeline (length rs) entry))
   \<and> (case generateImpactSummary env sinput ctx w of
      (Inl e, w') \<Rightarrow> auditTrail w' = auditTrail w
    | (Inr s, w') \<Rightarrow>
        (\<exists>n first second. auditTrail w' = auditTrail w @ [first, second]
                 \<and> accessEntry w get_timeline n first
                 \<and> accessEntry w get_impact_summary n second))"
proof -
  have "case getServiceTimeline env sid startDate endDate limit ctx w of
      (Inl e, w') \<Rightarrow> auditTrail w' = auditTrail w
    | (Inr rs, w') \<Rightarrow>
        (\<exists>entry. auditTrail w' = auditTrail w @ [entry]
                 \<and> accessEntry w get_timeline (length rs) entry)"
    using getServiceTimeline_audit[OF assms, where env = env and sid = sid
        and startDate = startDate and endDate = endDate and limit = limit and ctx = ctx]
    by (auto split: sum.splits prod.splits)
  with searchEvents_audit[OF assms, where env = env and input = input and ctx = ctx]
    getEventById_audit[OF assms, where env = env and eid = eid and ctx = ctx]
    generateImpactSummary_audit[OF assms, where env = env and sinput = sinput and ctx = ctx]
  show ?thesis
    by blast
qed

text \<open>
  Against the small deployment, whose clock reads the first instant of 2024: one entry for
  a search, a lookup and a timeline, two for an impact summary, none for a search that fails
  because storage is down; the entry of the search carries that instant.
\<close>

theorem audit_entries_per_call_witness:
  "auditTrail demoWorld = []
   \<and> - 62167219200000 \<le> now demoWorld
   \<and> now demoWorld < 253402300800000
   \<and> length (auditTrail (snd (searchEvents demoEnv demoInput callerA demoWorld))) = 1
   \<and> map log_timestamp (auditTrail (snd (searchEvents demoEnv demoInput callerA demoWorld)))
       = [''2024-01-01T00:00:00.000Z'']
   \<and> length (auditTrail (snd (getEventById demoEnv ''e1'' callerA demoWorld))) = 1
   \<and> length (auditTrail (snd (getServiceTimeline demoEnv ''svc-a'' None None 5 callerA demoWorld)))
       = 1
   \<and> length (auditTrail (snd (generateImpactSummary demoEnv demoSummaryInput callerA demoWorld)))
       = 2
   \<and> fst (searchEvents demoEnv demoInput callerA downWorld) = Inl StorageUnavailable
   \<and> auditTrail (snd (searchEvents demoEnv demoInput callerA downWorld)) = []"
proof -
  have empty: "auditTrail demoWorld = []" "auditTrail downWorld = []"
    by (simp_all add: demoWorld_def downWorld_def)
  have clock: "- 62167219200000 \<le> now demoWorld" "now demoWorld < 253402300800000"
    "- 62167219200000 \<le> now downWorld" "now downWorld < 253402300800000"
    by (simp_all add: demoWorld_def downWorld_def)
  have clock': "now demoWorld = 1704067200000"
    by (simp add: demoWorld_def)
  have semantic: "input_useSemanticSearch demoInput"
    by (simp add: demoInput_def)
  have sem: "semanticSearch demoEnv demoInput callerA demoWorld
               = (Inr [toResult (Some 1) eventA], demoWorld\<lparr>reads := Suc (reads demoWorld)\<rparr>)"
    by code_simp
  have down: "fst (semanticSearch demoEnv demoInput callerA downWorld) = Inl StorageUnavailable"
    by code_simp
  have instant: "toISOString 1704067200000 = ''2024-01-01T00:00:00.000Z''"
    by code_simp
  have r1: "fst (searchEvents demoEnv demoInput callerA demoWorld)
              = Inr [toResult (Some 1) eventA]"
    by (simp add: searchEvents_result sem semantic)
  have r2: "fst (getEventById demoEnv ''e1'' callerA demoWorld) = Inr (Some (toResult None eventA))"
    by (simp add: getEventById_def selectEvents_def getAuthorizedServiceFilter_def callerA_def
        demoWorld_def eventA_def)
  have r3: "fst (getServiceTimeline demoEnv ''svc-a'' None None 5 callerA demoWorld)
              = Inr [toResult None eventA]"
    by (simp add: getServiceTimeline_def timelineBound_def selectEvents_def byRecency_def
        getAuthorizedServiceFilter_def callerA_def demoWorld_def eventA_def eventB_def)
  have r4: "fst (generateImpactSummary demoEnv demoSummaryInput callerA demoWorld)
              = Inr ''Impact Summary for svc-a''"
    by (simp add: generateImpactSummary_def getServiceTimeline_def timelineBound_def toDate_def
        selectEvents_def byRecency_def getAuthorizedServiceFilter_def callerA_def demoWorld_def
        eventA_def eventB_def demoSummaryInput_def demoEnv_def)
  have stamp: "map log_timestamp
                 (auditTrail (snd (searchEvents demoEnv demoInput callerA demoWorld)))
               = [''2024-01-01T00:00:00.000Z'']"
    by (simp add: searchEvents_def sem semantic auditEventAccess_trail instant clock' empty)
  have failed: "fst (searchEvents demoEnv demoInput callerA downWorld) = Inl StorageUnavailable"
    by (simp add: searchEvents_result down semantic)
  from audit_entries_per_call[OF clock(1,2), where env = demoEnv and input = demoInput
      and ctx = callerA and eid = "''e1''" and sid = "''svc-a''" and startDate = None
      and endDate = None and limit = 5 and sinput = demoSummaryInput] r1 r2 r3 r4 empty(1)
  have a: "length (auditTrail (snd (searchEvents demoEnv demoInput callerA demoWorld))) = 1"
    "length (auditTrail (snd (getEventById demoEnv ''e1'' callerA demoWorld))) = 1"
    "length (auditTrail (snd (getServiceTimeline demoEnv ''svc-a'' None None 5 callerA demoWorld)))
       = 1"
    "length (auditTrail (snd (generateImpactSummary demoEnv demoSummaryInput callerA demoWorld)))
       = 2"
    by (auto split: prod.splits sum.splits)
  from audit_entries_per_call[OF clock(3,4), where env = demoEnv and input = demoInput
      and ctx = callerA and eid = "''e1''" and sid = "''svc-a''" and startDate = None
      and endDate = None and limit = 5 and sinput = demoSummaryInput] failed empty(2)
  have b: "auditTrail (snd (searchEvents demoEnv demoInput callerA downWorld)) = []"
    by (auto split: prod.splits sum.splits)
  from empty(1) clock(1,2) a stamp failed b show ?thesis
    by simp
qed

text \<open>
  As stated the claim fails in three ways: an impact summary leaves two entries; a timeline
  refused and a lookup answered with \<open>null\<close> leave entries whose \<open>success\<close> is true though no
  record was returned; a call that fails leaves no entry.
\<close>

theorem audit_one_entry_counterexample:
  "auditTrail demoWorld = []
   \<and> length (auditTrail (snd (generateImpactSummary demoEnv demoSummaryInput callerA demoWorld)))
       = 2
   \<and> fst (getServiceTimeline demoEnv ''svc-b'' None None 5 callerA demoWorld) = Inr []
   \<and> map log_success
         (auditTrail (snd (getServiceTimeline demoEnv ''svc-b'' None None 5 callerA demoWorld)))
       = [True]
   \<and> fst (getEventById demoEnv ''e2'' callerA demoWorld) = Inr None
   \<and> map log_success (auditTrail (snd (getEventById demoEnv ''e2'' callerA demoWorld))) = [True]
   \<and> fst (searchEvents demoEnv demoInput callerA downWorld) = Inl StorageUnavailable
   \<and> auditTrail (snd (searchEvents demoEnv demoInput callerA downWorld)) = []"
proof -
  have semantic: "input_useSemanticSearch demoInput"
    by (simp add: demoInput_def)
  have "semanticSearch demoEnv demoInput callerA downWorld
          = (Inl StorageUnavailable, downWorld\<lparr>reads := Suc (reads downWorld)\<rparr>)"
    by code_simp
  then have failing: "fst (searchEvents demoEnv demoInput callerA downWorld) = Inl StorageUnavailable"
    "auditTrail (snd (searchEvents demoEnv demoInput callerA downWorld)) = []"
    by (simp_all add: searchEvents_def semantic downWorld_def demoWorld_def)
  have summary:
    "length (auditTrail (snd (generateImpactSummary demoEnv demoSummaryInput callerA demoWorld)))
       = 2"
    by (simp add: generateImpactSummary_def getServiceTimeline_def timelineBound_def toDate_def
        selectEvents_def byRecency_def getAuthorizedServiceFilter_def callerA_def demoWorld_def
        eventA_def eventB_def demoSummaryInput_def auditEventAccess_trail)
  have refused: "fst (getServiceTimeline demoEnv ''svc-b'' None None 5 callerA demoWorld) = Inr []"
    "map log_success
       (auditTrail (snd (getServiceTimeline demoEnv ''svc-b'' None None 5 callerA demoWorld)))
     = [True]"
    by (simp_all add: getServiceTimeline_def getAuthorizedServiceFilter_def callerA_def
        demoWorld_def auditEventAccess_trail)
  have hidden: "fst (getEventById demoEnv ''e2'' callerA demoWorld) = Inr None"
    "map log_success (auditTrail (snd (getEventById demoEnv ''e2'' callerA demoWorld))) = [True]"
    by (simp_all add: getEventById_def selectEvents_def getAuthorizedServiceFilter_def callerA_def
        demoWorld_def eventA_def eventB_def auditEventAccess_trail)
  from failing summary refused hidden show ?thesis
    by (simp add: demoWorld_def)
qed

text \<open>
  Every entry written through \<open>auditEventAccess\<close> says \<open>success\<close>, whatever the count; the
  recorder's \<open>auditAuthorizationDenied\<close>, which says otherwise, has no caller in the query
  gate.
\<close>

lemma access_entries_say_success:
  "log_success (last (auditTrail (auditEventAccess cid cname action n sid metadata w)))"
  by (simp add: auditEventAccess_trail)

end
